theory Spec2Isabelle
  imports Main
begin

section \<open>The tooltip widget of alfresco/misc/AlfTooltip.js\<close>

text \<open>
  The widget is a JavaScript object whose methods run to completion on the browser's
  event loop. The model keeps the object's fields and the part of the browser the
  methods touch (the clock, the table of live timers, the listeners registered with
  \<open>dojo/on\<close>) in one record, and every call the widget makes to a collaborator
  (\<open>processWidgets\<close>, \<open>domConstruct.create\<close>, the \<open>TooltipDialog\<close> constructor,
  \<open>popup.open\<close>, \<open>popup.close\<close>, \<open>alfLog\<close>) as a time-stamped entry of a trace.
  Times and delays are natural numbers of milliseconds.

  The collaborators are not part of the file. What they do to the page is not modelled;
  that they are called, when and with what, is. The three calls inside
  \<open>showTooltip\<close> may throw, as the environment decides; \<open>alfLog\<close>,
  \<open>dojo/on\<close>, \<open>domConstruct.create\<close>, \<open>popup.close\<close> and the processing of
  the primary model are taken to return. Timers are those of the platform: a timer
  fires once, at its due time, unless it has been cleared before. The platform keeps
  the delay of a timer as a signed number of 32 bits and fires at once a timer whose
  delay does not fit; the model adds the delay to the clock as it is, so its timers are
  the platform's for delays below \<open>2 ^ 31\<close> milliseconds. A statement about the
  time at which a timer fires is made for such delays.
\<close>

subsection \<open>Data\<close>

type_synonym widget_model = "string list"

datatype node = DomNode | DialogContent

text \<open>The methods of the widget, as they are bound with \<open>lang.hitch(this, ...)\<close>.\<close>

datatype handler =
  OnMouseover | OnMouseout | OnTooltipMouseover | OnTooltipMouseout | ShowTooltip | HideTooltip

text \<open>
  The two functions the widget ever hands to \<open>setTimeout\<close>: the bound \<open>showTooltip\<close>
  and the bound \<open>hideTooltip\<close>.
\<close>

datatype callback = ShowCb | HideCb

text \<open>The object made by \<open>new TooltipDialog({id, style, content, onMouseEnter, onMouseLeave})\<close>.\<close>

datatype dialog = TooltipDialog
  (dialog_id: string) (dialog_style: "string option") (onMouseEnter: handler) (onMouseLeave: handler)

text \<open>
  What can be thrown inside \<open>showTooltip\<close>: by \<open>processWidgets\<close>, by the
  \<open>TooltipDialog\<close> constructor, or by \<open>popup.open\<close>. The widget has no \<open>try\<close>.
\<close>

datatype error = ProcessWidgetsFailure | TooltipDialogFailure | PopupOpenFailure

datatype effect =
    AlfLog string string
  | ProcessWidgets "widget_model option" node
  | DomCreate string
  | NewTooltipDialog dialog
  | PopupOpen dialog node
  | PopupClose "dialog option"
  | Thrown error

record timer =
  tid :: nat
  due :: nat
  callback :: callback

text \<open>The attributes a page sets on the widget; \<open>defaults\<close> are the prototype's values.\<close>

record config =
  wid :: string
  widgets :: "widget_model option"
  widgetsForTooltip :: "widget_model option"
  tooltipStyle :: "string option"
  triggeringEvent :: string
  mouseoverShowDelay :: nat
  mouseoutHideDelay :: nat

definition defaults :: config where
  "defaults = \<lparr> wid = ''alfresco_misc_AlfTooltip_0'', widgets = None, widgetsForTooltip = None,
     tooltipStyle = None, triggeringEvent = ''mouseover'',
     mouseoverShowDelay = 250, mouseoutHideDelay = 250 \<rparr>"

text \<open>
  The fields \<open>_tooltip\<close>, \<open>dialogContent\<close>, \<open>_showTooltipTimeout\<close> and
  \<open>_hideTooltipTimeout\<close> of the widget, then the browser: the clock, the live timers
  in the order they were set, the next timer handle, the listeners on the widget's
  \<open>domNode\<close>, the trace of collaborator calls, and \<open>coming\<close>, the outcomes of the
  \<open>showTooltip\<close> calls still to come (\<open>None\<close>: every collaborator returns;
  \<open>Some e\<close>: the collaborator of \<open>e\<close> throws if it is called; all return once the
  list is used up).
\<close>

record state =
  cfg :: config
  tooltip :: "dialog option"
  dialogContent :: bool
  showTooltipTimeout :: nat
  hideTooltipTimeout :: nat
  now :: nat
  timers :: "timer list"
  next_id :: nat
  listeners :: "(string \<times> handler) list"
  trace :: "(nat \<times> effect) list"
  coming :: "error option list"

subsection \<open>The browser: trace, timers, listeners\<close>

definition emit :: "effect \<Rightarrow> state \<Rightarrow> state" where
  "emit x s = s\<lparr>trace := trace s @ [(now s, x)]\<rparr>"

text \<open>
  \<open>setTimeout\<close> returns a handle never used before (handles start at 1, so the
  initial slot value 0 names no timer) and makes the timer due \<open>delay\<close>
  milliseconds from now, which is what the platform does for a delay below
  \<open>2 ^ 31\<close>; \<open>clearTimeout\<close> removes the timer with the given handle and does
  nothing when there is none.

  \<open>on\<close> registers a listener under the name it is given, taken whole.
  \<open>dojo/on\<close> does that for the name of a single event; a name with a comma in it
  is split there into several events, and one with a colon is read as a selector and
  an event.
\<close>

definition setTimeout :: "callback \<Rightarrow> nat \<Rightarrow> state \<Rightarrow> nat \<times> state" where
  "setTimeout cb delay s =
     (next_id s,
      s\<lparr>timers := timers s @ [\<lparr>tid = next_id s, due = now s + delay, callback = cb\<rparr>],
        next_id := Suc (next_id s)\<rparr>)"

definition clearTimeout :: "nat \<Rightarrow> state \<Rightarrow> state" where
  "clearTimeout h s = s\<lparr>timers := filter (\<lambda>x. tid x \<noteq> h) (timers s)\<rparr>"

definition on :: "string \<Rightarrow> handler \<Rightarrow> state \<Rightarrow> state" where
  "on name m s = s\<lparr>listeners := listeners s @ [(name, m)]\<rparr>"

definition take_outcome :: "state \<Rightarrow> error option \<times> state" where
  "take_outcome s = (case coming s of [] \<Rightarrow> (None, s) | x # xs \<Rightarrow> (x, s\<lparr>coming := xs\<rparr>))"

subsection \<open>The methods of the widget\<close>

definition popup_open :: "error option \<Rightarrow> dialog \<Rightarrow> state \<Rightarrow> error option \<times> state" where
  "popup_open oc d s =
     (if oc = Some PopupOpenFailure then oc else None, emit (PopupOpen d DomNode) s)"

text \<open>
  \<open>showTooltip\<close> returns the exception that left it, if any, with the state as the
  statements before the throw have made it.
\<close>

definition showTooltip :: "state \<Rightarrow> error option \<times> state" where
  "showTooltip s0 =
     (case take_outcome s0 of (oc, s) \<Rightarrow>
       (case tooltip s of
          Some d \<Rightarrow> popup_open oc d s
        | None \<Rightarrow>
           (let s1 = (emit (DomCreate ''div'') s)\<lparr>dialogContent := True\<rparr>;
                s2 = emit (ProcessWidgets (widgetsForTooltip (cfg s1)) DialogContent) s1
            in if oc = Some ProcessWidgetsFailure then (oc, s2)
               else
                 (let d = TooltipDialog (wid (cfg s2) @ ''_TOOLTIP'') (tooltipStyle (cfg s2))
                            OnTooltipMouseover OnTooltipMouseout;
                      s3 = emit (NewTooltipDialog d) s2
                  in if oc = Some TooltipDialogFailure then (oc, s3)
                     else popup_open oc d (s3\<lparr>tooltip := Some d\<rparr>)))))"

definition hideTooltip :: "state \<Rightarrow> state" where
  "hideTooltip s = emit (PopupClose (tooltip s)) s"

definition postCreate :: "state \<Rightarrow> state" where
  "postCreate s =
     (let s1 = (case widgetsForTooltip (cfg s) of
                  Some m \<Rightarrow>
                    if triggeringEvent (cfg s) = ''mouseover''
                    then on ''mouseout'' OnMouseout (on ''mouseover'' OnMouseover s)
                    else on (triggeringEvent (cfg s)) ShowTooltip s
                | None \<Rightarrow>
                    emit (AlfLog ''warn''
                      ''A tooltip dialog was configured without a 'widgetsForTooltip' attribute'') s)
      in case widgets (cfg s1) of
           Some m \<Rightarrow> emit (ProcessWidgets (Some m) DomNode) s1
         | None \<Rightarrow> s1)"

definition onMouseover :: "state \<Rightarrow> state" where
  "onMouseover s =
     (case setTimeout ShowCb (mouseoverShowDelay (cfg s)) (clearTimeout (hideTooltipTimeout s) s)
      of (h, s') \<Rightarrow> s'\<lparr>showTooltipTimeout := h\<rparr>)"

definition onMouseout :: "state \<Rightarrow> state" where
  "onMouseout s =
     (case setTimeout HideCb (mouseoutHideDelay (cfg s)) (clearTimeout (showTooltipTimeout s) s)
      of (h, s') \<Rightarrow> s'\<lparr>hideTooltipTimeout := h\<rparr>)"

definition onTooltipMouseover :: "state \<Rightarrow> state" where
  "onTooltipMouseover s = clearTimeout (hideTooltipTimeout s) s"

definition onTooltipMouseout :: "state \<Rightarrow> state" where
  "onTooltipMouseout s =
     (case setTimeout HideCb (mouseoutHideDelay (cfg s)) s
      of (h, s') \<Rightarrow> s'\<lparr>hideTooltipTimeout := h\<rparr>)"

subsection \<open>The event loop\<close>

text \<open>
  A method called by the browser or by other code of the page; an exception that
  leaves it is recorded in the trace.
\<close>

fun invoke :: "handler \<Rightarrow> state \<Rightarrow> state" where
  "invoke OnMouseover s = onMouseover s"
| "invoke OnMouseout s = onMouseout s"
| "invoke OnTooltipMouseover s = onTooltipMouseover s"
| "invoke OnTooltipMouseout s = onTooltipMouseout s"
| "invoke ShowTooltip s =
     (case showTooltip s of (None, s') \<Rightarrow> s' | (Some e, s') \<Rightarrow> emit (Thrown e) s')"
| "invoke HideTooltip s = hideTooltip s"

fun handler_of :: "callback \<Rightarrow> handler" where
  "handler_of ShowCb = ShowTooltip"
| "handler_of HideCb = HideTooltip"

text \<open>
  The timer that fires next when the clock moves to \<open>t\<close>: the one due first among
  those due by \<open>t\<close>, the one set first among equals.
\<close>

fun earliest :: "timer \<Rightarrow> timer list \<Rightarrow> timer" where
  "earliest x [] = x"
| "earliest x (y # ys) = earliest (if due y < due x then y else x) ys"

definition next_due :: "nat \<Rightarrow> timer list \<Rightarrow> timer option" where
  "next_due t ts = (case filter (\<lambda>x. due x \<le> t) ts of [] \<Rightarrow> None | x # xs \<Rightarrow> Some (earliest x xs))"

definition fire :: "timer \<Rightarrow> state \<Rightarrow> state" where
  "fire tm s =
     invoke (handler_of (callback tm))
       (s\<lparr>timers := filter (\<lambda>x. tid x \<noteq> tid tm) (timers s), now := max (now s) (due tm)\<rparr>)"

text \<open>
  Moving the clock to \<open>t\<close>: the timers due by then fire one after the other, each
  at its own time, and the clock ends at \<open>t\<close>.
\<close>

function advance :: "nat \<Rightarrow> state \<Rightarrow> state" where
  "advance t s =
     (case next_due t (timers s) of
        None \<Rightarrow> s\<lparr>now := max (now s) t\<rparr>
      | Some tm \<Rightarrow> advance t (fire tm s))"
  by pat_completeness auto

termination
proof (relation "measure (\<lambda>(t, s). length (timers s))")
  fix t :: nat and s :: state and tm :: timer
  assume d: "next_due t (timers s) = Some tm"
  have keep: "timers (invoke (handler_of cb) u) = timers u" for cb u
    by (cases cb; cases "coming u"; cases "tooltip u")
       (auto simp: showTooltip_def take_outcome_def popup_open_def hideTooltip_def emit_def
          Let_def split: option.splits)
  have e: "earliest x xs \<in> set (x # xs)" for x xs
    by (induction xs arbitrary: x) auto
  obtain x xs where f: "filter (\<lambda>x. due x \<le> t) (timers s) = x # xs"
    and tm: "tm = earliest x xs"
    using d by (auto simp: next_due_def split: list.splits)
  have "tm \<in> set (filter (\<lambda>x. due x \<le> t) (timers s))"
    unfolding f tm by (rule e)
  then have "tm \<in> set (timers s)" by simp
  then have "length (filter (\<lambda>x. tid x \<noteq> tid tm) (timers s)) < length (timers s)"
    by (intro length_filter_less[of tm]) auto
  then show "((t, fire tm s), (t, s)) \<in> measure (\<lambda>(t, s). length (timers s))"
    by (simp add: fire_def keep)
qed simp

declare advance.simps [simp del]

text \<open>
  The events the browser delivers: an event of some name on the widget's
  \<open>domNode\<close>, which calls the listeners registered under that very name in the
  order of their registration, and the pointer entering or leaving the tooltip dialog, which
  calls the hooks the dialog was constructed with (there is nothing to enter before it
  exists).
\<close>

datatype dom_event = Trigger string | TooltipEnter | TooltipLeave

fun dispatch :: "dom_event \<Rightarrow> state \<Rightarrow> state" where
  "dispatch (Trigger name) s =
     fold (\<lambda>l. if fst l = name then invoke (snd l) else id) (listeners s) s"
| "dispatch TooltipEnter s = (case tooltip s of None \<Rightarrow> s | Some d \<Rightarrow> invoke (onMouseEnter d) s)"
| "dispatch TooltipLeave s = (case tooltip s of None \<Rightarrow> s | Some d \<Rightarrow> invoke (onMouseLeave d) s)"

text \<open>An operation on the widget: a browser event, or a direct call of one of its methods.\<close>

datatype op = Dom dom_event | Call handler

fun perform :: "op \<Rightarrow> state \<Rightarrow> state" where
  "perform (Dom e) s = dispatch e s"
| "perform (Call m) s = invoke m s"

fun run :: "(nat \<times> op) list \<Rightarrow> state \<Rightarrow> state" where
  "run [] s = s"
| "run (x # xs) s = run xs (perform (snd x) (advance (fst x) s))"

definition init :: "config \<Rightarrow> error option list \<Rightarrow> state" where
  "init c sc = \<lparr> cfg = c, tooltip = None, dialogContent = False,
     showTooltipTimeout = 0, hideTooltipTimeout = 0,
     now = 0, timers = [], next_id = 1, listeners = [], trace = [], coming = sc \<rparr>"

definition boot :: "config \<Rightarrow> error option list \<Rightarrow> state" where
  "boot c sc = postCreate (init c sc)"

section \<open>Vocabulary of the statements\<close>

text \<open>The pointer moving onto and off the widget's \<open>domNode\<close>.\<close>

abbreviation enter :: op where "enter \<equiv> Dom (Trigger ''mouseover'')"

abbreviation leave :: op where "leave \<equiv> Dom (Trigger ''mouseout'')"

text \<open>
  The dialog \<open>showTooltip\<close> constructs for a configuration, and the calls it makes
  to construct it.
\<close>

definition the_dialog :: "config \<Rightarrow> dialog" where
  "the_dialog c =
     TooltipDialog (wid c @ ''_TOOLTIP'') (tooltipStyle c) OnTooltipMouseover OnTooltipMouseout"

definition construction :: "config \<Rightarrow> effect list" where
  "construction c =
     [DomCreate ''div'', ProcessWidgets (widgetsForTooltip c) DialogContent,
      NewTooltipDialog (the_dialog c)]"

text \<open>The first and the third example configuration of the module's documentation.\<close>

definition hover_example :: config where
  "hover_example = defaults\<lparr>widgets := Some [''alfresco/logo/Logo''],
     widgetsForTooltip := Some [''alfresco/html/Label'']\<rparr>"

definition click_example :: config where
  "click_example = hover_example\<lparr>triggeringEvent := ''click'',
     tooltipStyle := Some ''width: 350px;''\<rparr>"

subsection \<open>Outcomes of the collaborators\<close>

text \<open>The outcome the next \<open>showTooltip\<close> call will meet.\<close>

definition outcome :: "state \<Rightarrow> error option" where
  "outcome s = (case coming s of [] \<Rightarrow> None | x # xs \<Rightarrow> x)"

subsection \<open>Registration of the listeners\<close>

text \<open>A timed sequence of browser events, as operations.\<close>

definition events :: "(nat \<times> dom_event) list \<Rightarrow> (nat \<times> op) list" where
  "events evs = map (\<lambda>x. (fst x, Dom (snd x))) evs"

definition warning :: effect where
  "warning = AlfLog ''warn''
     ''A tooltip dialog was configured without a 'widgetsForTooltip' attribute''"

text \<open>A widget configured with a primary model only.\<close>

definition bare_example :: config where
  "bare_example = defaults\<lparr>widgets := Some [''alfresco/logo/Logo'']\<rparr>"

subsection \<open>Triggering by an explicit event\<close>


fun is_close :: "effect \<Rightarrow> bool" where
  "is_close (PopupClose d) = True"
| "is_close x = False"

definition closes :: "state \<Rightarrow> (nat \<times> effect) list" where
  "closes s = filter (\<lambda>x. is_close (snd x)) (trace s)"

text \<open>
  What holds of a widget triggered by an explicit event, whatever the browser delivers:
  the listeners call \<open>showTooltip\<close>, a dialog has the two hooks of the widget, every
  live timer is a hide timer, and the show slot has never been written.
\<close>

definition explicit_inv :: "state \<Rightarrow> bool" where
  "explicit_inv s \<longleftrightarrow>
     list_all (\<lambda>l. snd l = ShowTooltip) (listeners s)
   \<and> (case tooltip s of None \<Rightarrow> True
      | Some d \<Rightarrow> onMouseEnter d = OnTooltipMouseover \<and> onMouseLeave d = OnTooltipMouseout)
   \<and> list_all (\<lambda>tm. callback tm = HideCb) (timers s)
   \<and> showTooltipTimeout s = 0"

definition quiet :: "state \<Rightarrow> bool" where
  "quiet s \<longleftrightarrow> explicit_inv s \<and> timers s = [] \<and> closes s = []"

subsection \<open>The dialog is constructed once\<close>

text \<open>
  The calls of \<open>processWidgets\<close> on the tooltip model in a trace, and the outcomes
  in a list after which \<open>showTooltip\<close> has to construct again: \<open>processWidgets\<close> or
  the constructor throwing.
\<close>

fun is_build :: "effect \<Rightarrow> bool" where
  "is_build (ProcessWidgets m DialogContent) = True"
| "is_build x = False"

definition builds :: "state \<Rightarrow> nat" where
  "builds s = length (filter (\<lambda>x. is_build (snd x)) (trace s))"

definition retries :: "error option list \<Rightarrow> nat" where
  "retries sc =
     length (filter (\<lambda>x. x = Some ProcessWidgetsFailure \<or> x = Some TooltipDialogFailure) sc)"

definition potential :: "state \<Rightarrow> nat" where
  "potential s = builds s + retries (coming s) + (if tooltip s = None then 1 else 0)"

text \<open>Once a dialog is recorded, it stays, and the tooltip model is not processed again.\<close>

definition settled :: "dialog \<Rightarrow> nat \<Rightarrow> state \<Rightarrow> bool" where
  "settled d n s \<longleftrightarrow> tooltip s = Some d \<and> builds s = n"

subsection \<open>Hovering: the pointer over and off the widget\<close>

text \<open>
  A pointer move on the widget, the browser event it is, the timer it sets and the
  delay of that timer.
\<close>

datatype move = Enter | Leave

fun event_of :: "move \<Rightarrow> dom_event" where
  "event_of Enter = Trigger ''mouseover''"
| "event_of Leave = Trigger ''mouseout''"

fun kind :: "move \<Rightarrow> callback" where
  "kind Enter = ShowCb"
| "kind Leave = HideCb"

fun delay :: "config \<Rightarrow> move \<Rightarrow> nat" where
  "delay c Enter = mouseoverShowDelay c"
| "delay c Leave = mouseoutHideDelay c"

definition moves :: "(nat \<times> move) list \<Rightarrow> (nat \<times> op) list" where
  "moves ms = map (\<lambda>x. (fst x, Dom (event_of (snd x)))) ms"

text \<open>No two moves of the same kind in a row.\<close>

fun alternates :: "(nat \<times> move) list \<Rightarrow> bool" where
  "alternates (x # y # r) = (snd x \<noteq> snd y \<and> alternates (y # r))"
| "alternates r = True"

text \<open>
  Every move comes, in time order, before the timer set by the move before it is due.
\<close>

fun rapid :: "config \<Rightarrow> (nat \<times> move) list \<Rightarrow> bool" where
  "rapid c (x # y # r) =
     (fst x \<le> fst y \<and> fst y < fst x + delay c (snd x) \<and> rapid c (y # r))"
| "rapid c r = True"

text \<open>The slot in which the widget records the handle of a timer of each kind.\<close>

fun slot :: "callback \<Rightarrow> state \<Rightarrow> nat" where
  "slot ShowCb s = showTooltipTimeout s"
| "slot HideCb s = hideTooltipTimeout s"

definition hover_listeners :: "(string \<times> handler) list" where
  "hover_listeners = [(''mouseover'', OnMouseover), (''mouseout'', OnMouseout)]"

text \<open>
  Every live timer is the one recorded in the slot of its kind.
\<close>

definition tracked :: "state \<Rightarrow> bool" where
  "tracked s \<longleftrightarrow> list_all (\<lambda>x. tid x = slot (callback x) s) (timers s)"

text \<open>
  The state between two alternating moves: at most one timer, of kind \<open>k\<close> and
  recorded.
\<close>

definition lone :: "callback \<Rightarrow> state \<Rightarrow> bool" where
  "lone k s \<longleftrightarrow> listeners s = hover_listeners \<and> length (timers s) \<le> 1
     \<and> list_all (\<lambda>x. callback x = k \<and> tid x = slot k s) (timers s)"

subsection \<open>Passing over the widget quickly\<close>

text \<open>The calls only \<open>showTooltip\<close> makes; it makes at least one whenever it runs.\<close>

fun is_show_call :: "effect \<Rightarrow> bool" where
  "is_show_call (DomCreate x) = True"
| "is_show_call (ProcessWidgets m n) = (n = DialogContent)"
| "is_show_call (NewTooltipDialog d) = True"
| "is_show_call (PopupOpen d n) = True"
| "is_show_call x = False"

definition show_calls :: "state \<Rightarrow> (nat \<times> effect) list" where
  "show_calls s = filter (\<lambda>x. is_show_call (snd x)) (trace s)"

text \<open>
  No move onto the widget directly follows another: after the pointer has come over the
  widget, the next move is off it. Moves off the widget may repeat.
\<close>

fun enters_apart :: "(nat \<times> move) list \<Rightarrow> bool" where
  "enters_apart (x # y # r) = ((snd x = Enter \<longrightarrow> snd y = Leave) \<and> enters_apart (y # r))"
| "enters_apart r = True"

text \<open>
  The state after a move onto the widget in a quick passage: \<open>showTooltip\<close> has not
  run, and every live show timer is the one recorded in its slot and is not due before
  \<open>d\<close>.
\<close>

definition guarded :: "config \<Rightarrow> nat \<Rightarrow> state \<Rightarrow> bool" where
  "guarded c d s \<longleftrightarrow>
     cfg s = c \<and> listeners s = hover_listeners \<and> tooltip s = None \<and> show_calls s = []
   \<and> list_all (\<lambda>x. callback x = ShowCb \<longrightarrow> tid x = showTooltipTimeout s \<and> d \<le> due x)
        (timers s)"

text \<open>The state after a move off the widget: the same, with no live show timer at all.\<close>

definition unarmed :: "config \<Rightarrow> state \<Rightarrow> bool" where
  "unarmed c s \<longleftrightarrow>
     cfg s = c \<and> listeners s = hover_listeners \<and> tooltip s = None \<and> show_calls s = []
   \<and> list_all (\<lambda>x. callback x = HideCb) (timers s)"

fun after_move :: "config \<Rightarrow> nat \<times> move \<Rightarrow> state \<Rightarrow> bool" where
  "after_move c (t, Enter) s = guarded c (t + mouseoverShowDelay c) s"
| "after_move c (t, Leave) s = unarmed c s"

subsection \<open>Teardown\<close>

text \<open>
  Modelled from the spec: \<open>detach\<close>. The widget's file defines no teardown of its
  own (no \<open>destroy\<close>, nothing that clears a timer or closes the dialog when the widget
  goes away), so the operation is taken from the specification's words: it "cancels
  both outstanding timers unconditionally and releases the overlay handle if present
  (closing it first)", and "at any state leaves no outstanding timers". Cancelling the
  show timer and the hide timer is therefore cancelling whatever timer of either kind
  is outstanding, also one whose handle the widget has overwritten; closing is
  \<open>popup.close\<close> of the dialog, releasing is forgetting it.
\<close>

definition detach :: "state \<Rightarrow> state" where
  "detach s =
     (let s1 = s\<lparr>timers := filter (\<lambda>x. callback x \<noteq> ShowCb) (timers s)\<rparr>;
          s2 = s1\<lparr>timers := filter (\<lambda>x. callback x \<noteq> HideCb) (timers s1)\<rparr>
      in case tooltip s2 of
           None \<Rightarrow> s2
         | Some d \<Rightarrow> (emit (PopupClose (Some d)) s2)\<lparr>tooltip := None\<rparr>)"

section \<open>Basic facts\<close>

lemma showTooltip_timers: "timers (snd (showTooltip s)) = timers s"
  by (simp add: showTooltip_def take_outcome_def popup_open_def emit_def Let_def
      split: list.splits option.splits)

lemma earliest_mem: "earliest x xs \<in> set (x # xs)"
  by (induction xs arbitrary: x) auto

lemma next_due_mem: "next_due t ts = Some tm \<Longrightarrow> tm \<in> set ts"
proof -
  assume a: "next_due t ts = Some tm"
  then obtain x xs where f: "filter (\<lambda>x. due x \<le> t) ts = x # xs" and e: "tm = earliest x xs"
    by (auto simp: next_due_def split: list.splits)
  have "tm \<in> set (x # xs)" unfolding e by (rule earliest_mem)
  then have "tm \<in> set (filter (\<lambda>x. due x \<le> t) ts)" by (simp only: f)
  then show ?thesis by simp
qed

lemmas browser_defs = emit_def setTimeout_def clearTimeout_def on_def take_outcome_def

lemma advance_none:
  "next_due t (timers s) = None \<Longrightarrow> advance t s = s\<lparr>now := max (now s) t\<rparr>"
  by (simp add: advance.simps)

lemma advance_some:
  "next_due t (timers s) = Some tm \<Longrightarrow> advance t s = advance t (fire tm s)"
  by (simp add: advance.simps)

lemma boot_hover:
  assumes "triggeringEvent c = ''mouseover''" and "widgetsForTooltip c = Some m"
  shows "boot c sc =
     (init c sc)\<lparr>listeners := [(''mouseover'', OnMouseover), (''mouseout'', OnMouseout)],
        trace := (case widgets c of None \<Rightarrow> []
                  | Some w \<Rightarrow> [(0, ProcessWidgets (Some w) DomNode)])\<rparr>"
  using assms
  by (simp add: boot_def init_def postCreate_def on_def emit_def split: option.splits)

lemma take_outcome_eq: "take_outcome s = (outcome s, s\<lparr>coming := tl (coming s)\<rparr>)"
  by (cases "coming s") (simp_all add: take_outcome_def outcome_def)

lemma showTooltip_present:
  assumes "tooltip s = Some d"
  shows "showTooltip s =
    (if outcome s = Some PopupOpenFailure then Some PopupOpenFailure else None,
     s\<lparr>coming := tl (coming s), trace := trace s @ [(now s, PopupOpen d DomNode)]\<rparr>)"
  using assms by (simp add: showTooltip_def take_outcome_eq popup_open_def emit_def)

lemma showTooltip_absent:
  assumes "tooltip s = None"
  shows "showTooltip s =
    (if outcome s = Some ProcessWidgetsFailure
     then (outcome s,
           s\<lparr>coming := tl (coming s), dialogContent := True,
             trace := trace s @ map (Pair (now s)) (take 2 (construction (cfg s)))\<rparr>)
     else if outcome s = Some TooltipDialogFailure
     then (outcome s,
           s\<lparr>coming := tl (coming s), dialogContent := True,
             trace := trace s @ map (Pair (now s)) (construction (cfg s))\<rparr>)
     else (outcome s,
           s\<lparr>coming := tl (coming s), dialogContent := True,
             tooltip := Some (the_dialog (cfg s)),
             trace := trace s @ map (Pair (now s))
               (construction (cfg s) @ [PopupOpen (the_dialog (cfg s)) DomNode])\<rparr>))"
proof (cases "outcome s")
  case None
  then show ?thesis using assms
    by (simp add: showTooltip_def take_outcome_eq popup_open_def emit_def Let_def
        construction_def the_dialog_def)
next
  case (Some e)
  then show ?thesis using assms
    by (cases e) (simp_all add: showTooltip_def take_outcome_eq popup_open_def emit_def Let_def
        construction_def the_dialog_def)
qed

text \<open>What \<open>showTooltip\<close> and \<open>hideTooltip\<close> leave alone.\<close>

lemma showTooltip_frame:
  "cfg (snd (showTooltip s)) = cfg s"
  "now (snd (showTooltip s)) = now s"
  "next_id (snd (showTooltip s)) = next_id s"
  "listeners (snd (showTooltip s)) = listeners s"
  "showTooltipTimeout (snd (showTooltip s)) = showTooltipTimeout s"
  "hideTooltipTimeout (snd (showTooltip s)) = hideTooltipTimeout s"
  "coming (snd (showTooltip s)) = tl (coming s)"
  by (cases "tooltip s"; simp add: showTooltip_absent showTooltip_present)+

lemma invoke_ShowTooltip:
  "invoke ShowTooltip s =
     (case fst (showTooltip s) of None \<Rightarrow> snd (showTooltip s)
      | Some e \<Rightarrow> emit (Thrown e) (snd (showTooltip s)))"
  by (cases "showTooltip s") (simp split: option.splits)

lemma invoke_ShowTooltip_frame:
  "cfg (invoke ShowTooltip s) = cfg s"
  "now (invoke ShowTooltip s) = now s"
  "timers (invoke ShowTooltip s) = timers s"
  "next_id (invoke ShowTooltip s) = next_id s"
  "listeners (invoke ShowTooltip s) = listeners s"
  "showTooltipTimeout (invoke ShowTooltip s) = showTooltipTimeout s"
  "hideTooltipTimeout (invoke ShowTooltip s) = hideTooltipTimeout s"
  "coming (invoke ShowTooltip s) = tl (coming s)"
  unfolding invoke_ShowTooltip
  by (simp_all add: showTooltip_frame showTooltip_timers emit_def split: option.splits)

declare invoke.simps(5) [simp del]

lemma hideTooltip_eq:
  "hideTooltip s = s\<lparr>trace := trace s @ [(now s, PopupClose (tooltip s))]\<rparr>"
  by (simp add: hideTooltip_def emit_def)

section \<open>Failures inside showTooltip\<close>

lemma showTooltip_thrown:
  assumes "tooltip s = None" and "coming s = Some e # r"
  shows "showTooltip s =
    (Some e,
     if e = ProcessWidgetsFailure
     then s\<lparr>coming := r, dialogContent := True,
            trace := trace s @ map (Pair (now s)) (take 2 (construction (cfg s)))\<rparr>
     else if e = TooltipDialogFailure
     then s\<lparr>coming := r, dialogContent := True,
            trace := trace s @ map (Pair (now s)) (construction (cfg s))\<rparr>
     else s\<lparr>coming := r, dialogContent := True, tooltip := Some (the_dialog (cfg s)),
            trace := trace s @ map (Pair (now s))
              (construction (cfg s) @ [PopupOpen (the_dialog (cfg s)) DomNode])\<rparr>)"
  using assms(2)
  by (cases e) (simp_all add: showTooltip_absent[OF assms(1)] outcome_def)

text \<open>
  C5, as the code has it. Let \<open>showTooltip\<close> run while no dialog is recorded, and let
  a collaborator throw \<open>e\<close>. The exception leaves \<open>showTooltip\<close> (the method catches
  nothing). If \<open>processWidgets\<close> or the \<open>TooltipDialog\<close> constructor threw,
  \<open>_tooltip\<close> is still absent, and the next \<open>showTooltip\<close> (its collaborators
  returning) constructs from scratch: a new div, \<open>processWidgets\<close>, the constructor,
  then \<open>popup.open\<close>. If \<open>popup.open\<close> threw, the dialog had been stored before
  the call: \<open>_tooltip\<close> is present, and the next \<open>showTooltip\<close> constructs nothing
  and only calls \<open>popup.open\<close> again.
\<close>

theorem showTooltip_failure:
  assumes "tooltip s = None" and "coming s = Some e # r" and "r = [] \<or> hd r = None"
  shows "fst (showTooltip s) = Some e
    \<and> (e \<noteq> PopupOpenFailure \<longrightarrow>
          tooltip (snd (showTooltip s)) = None
        \<and> fst (showTooltip (snd (showTooltip s))) = None
        \<and> tooltip (snd (showTooltip (snd (showTooltip s)))) = Some (the_dialog (cfg s))
        \<and> trace (snd (showTooltip (snd (showTooltip s)))) =
            trace (snd (showTooltip s))
              @ map (Pair (now s))
                  (construction (cfg s) @ [PopupOpen (the_dialog (cfg s)) DomNode]))
    \<and> (e = PopupOpenFailure \<longrightarrow>
          tooltip (snd (showTooltip s)) = Some (the_dialog (cfg s))
        \<and> trace (snd (showTooltip s)) =
            trace s @ map (Pair (now s))
                        (construction (cfg s) @ [PopupOpen (the_dialog (cfg s)) DomNode])
        \<and> fst (showTooltip (snd (showTooltip s))) = None
        \<and> trace (snd (showTooltip (snd (showTooltip s)))) =
            trace (snd (showTooltip s)) @ [(now s, PopupOpen (the_dialog (cfg s)) DomNode)])"
proof -
  note first = showTooltip_thrown[OF assms(1,2)]
  have nxt: "outcome u = None" if "coming u = r" for u :: state
    using assms(3) that by (cases r) (auto simp: outcome_def)
  show ?thesis
  proof (cases e)
    case ProcessWidgetsFailure
    then show ?thesis
      by (simp add: first showTooltip_absent assms(1) nxt)
  next
    case TooltipDialogFailure
    then show ?thesis
      by (simp add: first showTooltip_absent assms(1) nxt)
  next
    case PopupOpenFailure
    then show ?thesis
      by (simp add: first showTooltip_present nxt)
  qed
qed

text \<open>
  The theorem at two inputs: the constructor throwing, and \<open>popup.open\<close> throwing, each
  at the first \<open>showTooltip\<close> of a fresh widget.
\<close>

theorem showTooltip_failure_witness:
  "fst (showTooltip (init hover_example [Some TooltipDialogFailure])) = Some TooltipDialogFailure
   \<and> tooltip (snd (showTooltip (init hover_example [Some TooltipDialogFailure]))) = None
   \<and> tooltip (snd (showTooltip (snd (showTooltip
        (init hover_example [Some TooltipDialogFailure])))))
       = Some (the_dialog hover_example)
   \<and> fst (showTooltip (init hover_example [Some PopupOpenFailure])) = Some PopupOpenFailure
   \<and> tooltip (snd (showTooltip (init hover_example [Some PopupOpenFailure])))
       = Some (the_dialog hover_example)"
  using showTooltip_failure[of "init hover_example [Some TooltipDialogFailure]"
          TooltipDialogFailure "[]"]
        showTooltip_failure[of "init hover_example [Some PopupOpenFailure]"
          PopupOpenFailure "[]"]
  by (simp add: init_def)

text \<open>
  C5 as stated fails where \<open>popup.open\<close> throws at the first \<open>showTooltip\<close>: the
  exception leaves the method, yet the dialog is recorded, and the second call only
  opens it.
\<close>

theorem open_failure_keeps_dialog:
  "tooltip (init hover_example [Some PopupOpenFailure]) = None
   \<and> fst (showTooltip (init hover_example [Some PopupOpenFailure])) = Some PopupOpenFailure
   \<and> tooltip (snd (showTooltip (init hover_example [Some PopupOpenFailure]))) =
       Some (TooltipDialog ''alfresco_misc_AlfTooltip_0_TOOLTIP'' None
              OnTooltipMouseover OnTooltipMouseout)
   \<and> trace (snd (showTooltip (snd (showTooltip (init hover_example [Some PopupOpenFailure]))))) =
       trace (snd (showTooltip (init hover_example [Some PopupOpenFailure])))
       @ [(0, PopupOpen (TooltipDialog ''alfresco_misc_AlfTooltip_0_TOOLTIP'' None
                OnTooltipMouseover OnTooltipMouseout) DomNode)]"
  by (simp add: init_def hover_example_def defaults_def showTooltip_def take_outcome_def
      popup_open_def emit_def Let_def)

section \<open>hideTooltip\<close>

text \<open>
  C4, as the code has it. \<open>hideTooltip\<close> has no guard: in every state it makes exactly
  one call, \<open>popup.close(this._tooltip)\<close>, with the dialog when there is one and with
  \<open>null\<close> when none has been constructed, and it changes no field of the widget and
  no timer.
\<close>

theorem hideTooltip_always_closes:
  "hideTooltip s = s\<lparr>trace := trace s @ [(now s, PopupClose (tooltip s))]\<rparr>"
  by (simp add: hideTooltip_def emit_def)

lemma pass_through_state:
  "run [(0, enter), (100, leave)] (boot hover_example []) =
     (boot hover_example [])\<lparr>showTooltipTimeout := 1, hideTooltipTimeout := 2, now := 100,
        timers := [\<lparr>tid = 2, due = 350, callback = HideCb\<rparr>], next_id := 3\<rparr>"
  by (simp add: boot_def postCreate_def hover_example_def defaults_def init_def browser_defs
      onMouseover_def onMouseout_def next_due_def advance_none)

text \<open>
  C4 as stated fails on a widget that has never shown its tooltip: called directly,
  \<open>hideTooltip\<close> calls \<open>popup.close(null)\<close>; and the pointer crossing the widget
  (over at 0 ms, out at 100 ms, default delays) makes the hide timer do so at 350 ms.
\<close>

theorem hideTooltip_without_dialog:
  "tooltip (init defaults []) = None
   \<and> trace (hideTooltip (init defaults [])) = [(0, PopupClose None)]
   \<and> trace (advance 350 (run [(0, enter), (100, leave)] (boot hover_example []))) =
       [(0, ProcessWidgets (Some [''alfresco/logo/Logo'']) DomNode), (350, PopupClose None)]"
  unfolding pass_through_state
  by (simp add: boot_def postCreate_def hover_example_def defaults_def init_def browser_defs
      hideTooltip_eq next_due_def fire_def advance.simps)

section \<open>One hover, interrupted\<close>

lemma scenario_state:
  assumes "mouseoverShowDelay c = 250" and "mouseoutHideDelay c = 250"
    and "triggeringEvent c = ''mouseover''" and "widgetsForTooltip c = Some m"
  shows "run [(0, enter), (100, leave)] (boot c sc) =
     (boot c sc)\<lparr>showTooltipTimeout := 1, hideTooltipTimeout := 2, now := 100,
        timers := [\<lparr>tid = 2, due = 350, callback = HideCb\<rparr>], next_id := 3\<rparr>"
    and "run [(0, enter), (100, leave), (150, enter)] (boot c sc) =
     (boot c sc)\<lparr>showTooltipTimeout := 3, hideTooltipTimeout := 2, now := 150,
        timers := [\<lparr>tid = 3, due = 400, callback = ShowCb\<rparr>], next_id := 4\<rparr>"
  using assms(1,2)
  by (simp_all add: boot_hover[OF assms(3,4)] init_def browser_defs onMouseover_def
      onMouseout_def next_due_def advance_none)

text \<open>
  C9. With both delays 250 ms, hover triggering and a tooltip model, let the pointer
  come over the widget at 0 ms, leave at 100 ms and come back at 150 ms, with nothing
  after that and collaborators that return. The leave cancels the show timer of the
  first enter: after it the only live timer is the hide timer due at 350 ms, which the
  second enter cancels in turn. The only timer left is the show timer due at 400 ms. At
  every time before 400 ms no collaborator has been called (nothing is shown); from
  400 ms on the trace holds the construction and one \<open>popup.open\<close>, all at 400 ms,
  and no timer is left.
\<close>

theorem enter_leave_enter:
  assumes "mouseoverShowDelay c = 250" and "mouseoutHideDelay c = 250"
    and "triggeringEvent c = ''mouseover''" and "widgetsForTooltip c = Some m"
    and "sc = [] \<or> hd sc = None"
    and "t1 < 400" and "400 \<le> t2"
  shows "timers (run [(0, enter), (100, leave)] (boot c sc)) =
           [\<lparr>tid = 2, due = 350, callback = HideCb\<rparr>]
    \<and> timers (run [(0, enter), (100, leave), (150, enter)] (boot c sc)) =
           [\<lparr>tid = 3, due = 400, callback = ShowCb\<rparr>]
    \<and> trace (advance t1 (run [(0, enter), (100, leave), (150, enter)] (boot c sc))) =
           trace (boot c sc)
    \<and> tooltip (advance t1 (run [(0, enter), (100, leave), (150, enter)] (boot c sc))) = None
    \<and> trace (advance t2 (run [(0, enter), (100, leave), (150, enter)] (boot c sc))) =
           trace (boot c sc)
           @ map (Pair 400) (construction c @ [PopupOpen (the_dialog c) DomNode])
    \<and> timers (advance t2 (run [(0, enter), (100, leave), (150, enter)] (boot c sc))) = []"
proof -
  note st = scenario_state[OF assms(1-4)]
  have oc: "outcome u = None" if "coming u = sc" for u :: state
    using assms(5) that by (cases sc) (auto simp: outcome_def)
  have before: "advance t1 (run [(0, enter), (100, leave), (150, enter)] (boot c sc)) =
     (boot c sc)\<lparr>showTooltipTimeout := 3, hideTooltipTimeout := 2, now := max 150 t1,
        timers := [\<lparr>tid = 3, due = 400, callback = ShowCb\<rparr>], next_id := 4\<rparr>"
    unfolding st using assms(6) by (simp add: next_due_def advance_none)
  have after: "advance t2 (run [(0, enter), (100, leave), (150, enter)] (boot c sc)) =
     (boot c sc)\<lparr>showTooltipTimeout := 3, hideTooltipTimeout := 2, now := t2,
        timers := [], next_id := 4, coming := tl sc, dialogContent := True,
        tooltip := Some (the_dialog c),
        trace := trace (boot c sc)
           @ map (Pair 400) (construction c @ [PopupOpen (the_dialog c) DomNode])\<rparr>"
    unfolding st unfolding boot_hover[OF assms(3,4)] using assms(7)
    by (simp add: init_def next_due_def advance.simps fire_def invoke_ShowTooltip
        showTooltip_absent oc)
  show ?thesis
    unfolding before after unfolding st
    by (simp add: boot_hover[OF assms(3,4)] init_def)
qed

text \<open>The theorem at the first documented configuration, at 399 ms and at 400 ms.\<close>

theorem enter_leave_enter_witness:
  "trace (advance 399 (run [(0, enter), (100, leave), (150, enter)] (boot hover_example []))) =
     [(0, ProcessWidgets (Some [''alfresco/logo/Logo'']) DomNode)]
   \<and> trace (advance 400 (run [(0, enter), (100, leave), (150, enter)] (boot hover_example []))) =
     [(0, ProcessWidgets (Some [''alfresco/logo/Logo'']) DomNode),
      (400, DomCreate ''div''),
      (400, ProcessWidgets (Some [''alfresco/html/Label'']) DialogContent),
      (400, NewTooltipDialog (the_dialog hover_example)),
      (400, PopupOpen (the_dialog hover_example) DomNode)]"
  using enter_leave_enter[of hover_example "[''alfresco/html/Label'']" "[]" 399 400]
  by (simp add: hover_example_def defaults_def boot_def postCreate_def init_def on_def emit_def
      construction_def the_dialog_def)

section \<open>Registration of the listeners\<close>

lemma boot_no_model:
  assumes "widgetsForTooltip c = None"
  shows "boot c sc =
     (init c sc)\<lparr>trace := (0, warning) #
        (case widgets c of None \<Rightarrow> [] | Some w \<Rightarrow> [(0, ProcessWidgets (Some w) DomNode)])\<rparr>"
  using assms
  by (simp add: boot_def init_def postCreate_def emit_def warning_def split: option.splits)

lemma deaf_widget:
  assumes "listeners s = []" and "tooltip s = None" and "timers s = []"
  shows "run (events evs) s = s\<lparr>now := foldl max (now s) (map fst evs)\<rparr>"
  using assms
proof (induction evs arbitrary: s)
  case Nil
  then show ?case by (simp add: events_def)
next
  case (Cons x evs)
  let ?u = "s\<lparr>now := max (now s) (fst x)\<rparr>"
  have adv: "advance (fst x) s = ?u"
    using Cons.prems(3) by (simp add: advance_none next_due_def)
  have disp: "dispatch (snd x) ?u = ?u"
    using Cons.prems(1,2) by (cases "snd x") simp_all
  have "run (events (x # evs)) s = run (events evs) ?u"
    by (simp add: events_def adv disp)
  also have "\<dots> = ?u\<lparr>now := foldl max (now ?u) (map fst evs)\<rparr>"
    using Cons.prems by (intro Cons.IH) simp_all
  finally show ?case by simp
qed

text \<open>
  C7. When no \<open>widgetsForTooltip\<close> is configured, \<open>postCreate\<close> logs one warning with
  \<open>alfLog\<close> and goes on: it processes the primary model \<open>widgets\<close> into the
  \<open>domNode\<close> when there is one, and returns a widget that differs from the fresh one
  in these calls only. No listener is registered. Hence, whatever events the browser
  delivers afterwards and whenever, only the clock moves: no collaborator is called, no
  dialog is constructed or opened, and no timer is set.
\<close>

theorem no_model_no_tooltip:
  assumes "widgetsForTooltip c = None"
  shows "boot c sc =
           (init c sc)\<lparr>trace := (0, warning) #
             (case widgets c of None \<Rightarrow> []
              | Some w \<Rightarrow> [(0, ProcessWidgets (Some w) DomNode)])\<rparr>
    \<and> listeners (boot c sc) = []
    \<and> run (events evs) (boot c sc) = (boot c sc)\<lparr>now := foldl max 0 (map fst evs)\<rparr>
    \<and> trace (run (events evs) (boot c sc)) = trace (boot c sc)
    \<and> tooltip (run (events evs) (boot c sc)) = None
    \<and> timers (run (events evs) (boot c sc)) = []"
proof -
  note b = boot_no_model[OF assms]
  have r: "run (events evs) (boot c sc) = (boot c sc)\<lparr>now := foldl max (now (boot c sc)) (map fst evs)\<rparr>"
    by (rule deaf_widget) (simp_all add: b init_def)
  have n: "now (boot c sc) = 0" by (simp add: b init_def)
  show ?thesis
    unfolding r n using b by (simp add: init_def)
qed

text \<open>
  The theorem at a widget configured with a primary model only: three events, none of
  them heard.
\<close>

theorem no_model_no_tooltip_witness:
  "widgetsForTooltip bare_example = None
   \<and> trace (boot bare_example []) =
      [(0, warning), (0, ProcessWidgets (Some [''alfresco/logo/Logo'']) DomNode)]
   \<and> listeners (boot bare_example []) = []
   \<and> trace (run (events [(0, Trigger ''mouseover''), (300, Trigger ''click''), (900, TooltipLeave)])
        (boot bare_example [])) = trace (boot bare_example [])
   \<and> tooltip (run (events [(0, Trigger ''mouseover''), (300, Trigger ''click''), (900, TooltipLeave)])
        (boot bare_example [])) = None"
proof -
  have h: "widgetsForTooltip bare_example = None"
    by (simp add: bare_example_def defaults_def)
  have w: "widgets bare_example = Some [''alfresco/logo/Logo'']"
    by (simp add: bare_example_def defaults_def)
  note t = no_model_no_tooltip[OF h, of "[]"
      "[(0, Trigger ''mouseover''), (300, Trigger ''click''), (900, TooltipLeave)]"]
  have b: "trace (boot bare_example []) =
      [(0, warning), (0, ProcessWidgets (Some [''alfresco/logo/Logo'']) DomNode)]"
    using t w by (simp add: init_def)
  from t have l: "listeners (boot bare_example []) = []" by blast
  from t have r: "trace (run (events [(0, Trigger ''mouseover''), (300, Trigger ''click''),
      (900, TooltipLeave)]) (boot bare_example [])) = trace (boot bare_example [])" by blast
  from t have n: "tooltip (run (events [(0, Trigger ''mouseover''), (300, Trigger ''click''),
      (900, TooltipLeave)]) (boot bare_example [])) = None" by blast
  show ?thesis by (intro conjI h b l r n)
qed

lemma boot_explicit:
  assumes "triggeringEvent c \<noteq> ''mouseover''" and "widgetsForTooltip c = Some m"
  shows "boot c sc =
     (init c sc)\<lparr>listeners := [(triggeringEvent c, ShowTooltip)],
        trace := (case widgets c of None \<Rightarrow> []
                  | Some w \<Rightarrow> [(0, ProcessWidgets (Some w) DomNode)])\<rparr>"
  using assms
  by (simp add: boot_def init_def postCreate_def on_def emit_def split: option.splits)




section \<open>Invariants of the event loop\<close>

lemma advance_preserves:
  assumes "P s"
    and "\<And>u tm. P u \<Longrightarrow> tm \<in> set (timers u) \<Longrightarrow> P (fire tm u)"
    and "\<And>u t. P u \<Longrightarrow> P (u\<lparr>now := t\<rparr>)"
  shows "P (advance t s)"
  using assms(1)
proof (induction t s rule: advance.induct)
  case (1 t s)
  show ?case
  proof (cases "next_due t (timers s)")
    case None
    then show ?thesis using 1 assms(3) by (simp add: advance_none)
  next
    case (Some tm)
    then have "P (fire tm s)" using "1.prems" assms(2) next_due_mem by blast
    then show ?thesis using "1.IH" Some by (simp add: advance_some)
  qed
qed

lemma run_preserves:
  assumes "P s"
    and "\<And>u x. P u \<Longrightarrow> x \<in> snd ` set ops \<Longrightarrow> P (perform x u)"
    and "\<And>u tm. P u \<Longrightarrow> tm \<in> set (timers u) \<Longrightarrow> P (fire tm u)"
    and "\<And>u t. P u \<Longrightarrow> P (u\<lparr>now := t\<rparr>)"
  shows "P (run ops s)"
  using assms(1,2)
proof (induction ops arbitrary: s)
  case Nil
  then show ?case by simp
next
  case (Cons x ops)
  have "P (advance (fst x) s)"
    using Cons.prems(1) assms(3,4) by (rule advance_preserves)
  then have "P (perform (snd x) (advance (fst x) s))"
    using Cons.prems(2) by simp
  then show ?case using Cons.IH Cons.prems(2) by simp
qed

lemma fold_listeners_preserves:
  assumes "P s" and "\<And>u l. P u \<Longrightarrow> l \<in> set ls \<Longrightarrow> P (invoke (snd l) u)"
  shows "P (fold (\<lambda>l. if fst l = name then invoke (snd l) else id) ls s)"
  using assms by (induction ls arbitrary: s) auto

lemma fire_eq:
  "fire tm s = invoke (handler_of (callback tm))
     (s\<lparr>timers := filter (\<lambda>x. tid x \<noteq> tid tm) (timers s), now := max (now s) (due tm)\<rparr>)"
  by (simp add: fire_def)

section \<open>Triggering by an explicit event\<close>

lemma tooltip_after_show:
  "tooltip (snd (showTooltip s)) = tooltip s \<or>
   tooltip s = None \<and> tooltip (snd (showTooltip s)) = Some (the_dialog (cfg s))"
  by (cases "tooltip s") (auto simp: showTooltip_absent showTooltip_present)

lemma tooltip_invoke_show:
  "tooltip (invoke ShowTooltip s) = tooltip (snd (showTooltip s))"
  by (simp add: invoke_ShowTooltip emit_def split: option.splits)

lemma explicit_inv_show: "explicit_inv s \<Longrightarrow> explicit_inv (invoke ShowTooltip s)"
  using tooltip_after_show[of s]
  by (auto simp: explicit_inv_def invoke_ShowTooltip_frame tooltip_invoke_show the_dialog_def
      split: option.splits)

lemma explicit_inv_hide: "explicit_inv s \<Longrightarrow> explicit_inv (hideTooltip s)"
  by (simp add: explicit_inv_def hideTooltip_eq)

lemma explicit_inv_clock: "explicit_inv s \<Longrightarrow> explicit_inv (s\<lparr>now := t\<rparr>)"
  by (simp add: explicit_inv_def)

lemma explicit_inv_fire: "explicit_inv s \<Longrightarrow> explicit_inv (fire tm s)"
proof -
  assume a: "explicit_inv s"
  let ?u = "s\<lparr>timers := filter (\<lambda>x. tid x \<noteq> tid tm) (timers s), now := max (now s) (due tm)\<rparr>"
  have "explicit_inv ?u" using a by (simp add: explicit_inv_def list_all_iff)
  then show ?thesis
    unfolding fire_eq by (cases "callback tm") (simp_all add: explicit_inv_show explicit_inv_hide)
qed

lemma explicit_inv_dispatch: "explicit_inv s \<Longrightarrow> explicit_inv (dispatch e s)"
proof (cases e)
  case (Trigger name)
  assume a: "explicit_inv s"
  have "explicit_inv (fold (\<lambda>l. if fst l = name then invoke (snd l) else id) (listeners s) s)"
  proof (rule fold_listeners_preserves[where P = explicit_inv, OF a])
    fix u l assume "explicit_inv u" and "l \<in> set (listeners s)"
    then show "explicit_inv (invoke (snd l) u)"
      using a by (auto simp: explicit_inv_def[of s] list_all_iff explicit_inv_show)
  qed
  then show ?thesis using Trigger by simp
next
  case TooltipEnter
  assume a: "explicit_inv s"
  then show ?thesis using TooltipEnter
    by (auto simp: explicit_inv_def onTooltipMouseover_def clearTimeout_def list_all_iff
        split: option.splits)
next
  case TooltipLeave
  assume a: "explicit_inv s"
  then show ?thesis using TooltipLeave
    by (auto simp: explicit_inv_def onTooltipMouseout_def setTimeout_def list_all_iff
        split: option.splits)
qed

lemma explicit_inv_run: "explicit_inv s \<Longrightarrow> explicit_inv (run (events evs) s)"
  by (rule run_preserves[where P = explicit_inv])
     (auto simp: events_def explicit_inv_dispatch explicit_inv_fire explicit_inv_clock)

lemma closes_show: "closes (invoke ShowTooltip s) = closes s"
  by (cases "tooltip s")
     (auto simp: closes_def invoke_ShowTooltip showTooltip_absent showTooltip_present emit_def
        construction_def split: option.splits)

lemma quiet_show: "quiet s \<Longrightarrow> quiet (invoke ShowTooltip s)"
  by (simp add: quiet_def explicit_inv_show closes_show invoke_ShowTooltip_frame)

lemma quiet_dispatch:
  assumes "quiet s" and "e \<noteq> TooltipLeave"
  shows "quiet (dispatch e s)"
proof (cases e)
  case (Trigger name)
  have "quiet (fold (\<lambda>l. if fst l = name then invoke (snd l) else id) (listeners s) s)"
  proof (rule fold_listeners_preserves[where P = quiet, OF assms(1)])
    fix u l assume "quiet u" and "l \<in> set (listeners s)"
    then show "quiet (invoke (snd l) u)"
      using assms(1) by (auto simp: quiet_def[of s] explicit_inv_def[of s] list_all_iff quiet_show)
  qed
  then show ?thesis using Trigger by simp
next
  case TooltipEnter
  then show ?thesis using assms(1)
    by (auto simp: quiet_def explicit_inv_def closes_def onTooltipMouseover_def clearTimeout_def
        split: option.splits)
next
  case TooltipLeave
  then show ?thesis using assms(2) by simp
qed

lemma quiet_run:
  assumes "quiet s" and "TooltipLeave \<notin> snd ` set evs"
  shows "quiet (run (events evs) s)"
proof (rule run_preserves[where P = quiet, OF assms(1)])
  fix u x assume "quiet u" and "x \<in> snd ` set (events evs)"
  then obtain e where "x = Dom e" and "e \<in> snd ` set evs"
    by (force simp: events_def)
  then have "e \<noteq> TooltipLeave" using assms(2) by blast
  then show "quiet (perform x u)"
    using \<open>quiet u\<close> \<open>x = Dom e\<close> by (simp add: quiet_dispatch)
next
  fix u tm assume "quiet u" and "tm \<in> set (timers u)"
  then show "quiet (fire tm u)" by (simp add: quiet_def)
next
  fix u t assume "quiet u"
  then show "quiet (u\<lparr>now := t\<rparr>)" by (simp add: quiet_def explicit_inv_def closes_def)
qed

lemma boot_quiet:
  assumes "triggeringEvent c \<noteq> ''mouseover''"
  shows "quiet (boot c sc)"
proof (cases "widgetsForTooltip c")
  case None
  show ?thesis
    unfolding boot_no_model[OF None]
    by (simp add: quiet_def explicit_inv_def closes_def init_def warning_def split: option.splits)
next
  case (Some m)
  show ?thesis
    unfolding boot_explicit[OF assms Some]
    by (simp add: quiet_def explicit_inv_def closes_def init_def split: option.splits)
qed

text \<open>
  C10. Let \<open>triggeringEvent\<close> be a name other than \<open>mouseover\<close>. An event of
  any name on the widget's \<open>domNode\<close> leaves the timer table, the next handle and
  both timeout slots as they were: the only listener there can be calls
  \<open>showTooltip\<close>. Whatever events the browser delivers to the widget and to its
  dialog, every timer alive afterwards is a hide timer. As long as the pointer has
  not left the dialog (no \<open>TooltipLeave\<close> among the events; the dialog reports a
  leave only after an enter), no timer exists and \<open>popup.close\<close> has not been
  called, nor will it be however far the clock moves on: the tooltip opened by the
  explicit event stays open.
\<close>

theorem explicit_event_no_timers:
  assumes "triggeringEvent c \<noteq> ''mouseover''"
    and "listeners s = listeners (boot c sc)"
  shows "timers (dispatch (Trigger name) s) = timers s
    \<and> next_id (dispatch (Trigger name) s) = next_id s
    \<and> showTooltipTimeout (dispatch (Trigger name) s) = showTooltipTimeout s
    \<and> hideTooltipTimeout (dispatch (Trigger name) s) = hideTooltipTimeout s
    \<and> list_all (\<lambda>tm. callback tm = HideCb) (timers (run (events evs) (boot c sc)))
    \<and> (TooltipLeave \<notin> snd ` set evs \<longrightarrow>
          timers (run (events evs) (boot c sc)) = []
        \<and> closes (run (events evs) (boot c sc)) = []
        \<and> closes (advance t (run (events evs) (boot c sc))) = [])"
proof -
  note q = boot_quiet[OF assms(1), of sc]
  let ?P = "\<lambda>u::state. timers u = timers s \<and> next_id u = next_id s
     \<and> showTooltipTimeout u = showTooltipTimeout s \<and> hideTooltipTimeout u = hideTooltipTimeout s"
  have "?P (fold (\<lambda>l. if fst l = name then invoke (snd l) else id) (listeners s) s)"
  proof (rule fold_listeners_preserves[where P = ?P])
    show "?P s" by simp
  next
    fix u l assume "?P u" and "l \<in> set (listeners s)"
    then show "?P (invoke (snd l) u)"
      using q assms(2)
      by (auto simp: quiet_def explicit_inv_def list_all_iff invoke_ShowTooltip_frame)
  qed
  then have step: "?P (dispatch (Trigger name) s)" by simp
  have inv: "explicit_inv (run (events evs) (boot c sc))"
    using q by (intro explicit_inv_run) (simp add: quiet_def)
  have still: "quiet (run (events evs) (boot c sc))" if "TooltipLeave \<notin> snd ` set evs"
    using q that by (rule quiet_run)
  have later: "closes (advance t u) = []" if "quiet u" for u
    using that by (simp add: quiet_def advance_none next_due_def closes_def)
  show ?thesis
    using step inv still later by (auto simp: explicit_inv_def quiet_def)
qed

text \<open>
  The theorem at the third documented configuration: a click, a stray mouseover and
  the pointer entering the dialog.
\<close>

theorem explicit_event_no_timers_witness:
  "timers (dispatch (Trigger ''click'') (boot click_example [])) = timers (boot click_example [])
   \<and> timers (run (events [(0, Trigger ''click''), (50, Trigger ''mouseover''), (5000, TooltipEnter)])
        (boot click_example [])) = []
   \<and> closes (advance 100000 (run (events [(0, Trigger ''click''), (50, Trigger ''mouseover''),
        (5000, TooltipEnter)]) (boot click_example []))) = []"
proof -
  have h: "triggeringEvent click_example \<noteq> ''mouseover''"
    by (simp add: click_example_def)
  note t = explicit_event_no_timers[OF h, of "boot click_example []" "[]" "''click''"
      "[(0, Trigger ''click''), (50, Trigger ''mouseover''), (5000, TooltipEnter)]" 100000]
  from t have 1: "timers (dispatch (Trigger ''click'') (boot click_example [])) =
      timers (boot click_example [])" by simp
  from t have 2: "timers (run (events [(0, Trigger ''click''), (50, Trigger ''mouseover''),
      (5000, TooltipEnter)]) (boot click_example [])) = []" by simp
  from t have 3: "closes (advance 100000 (run (events [(0, Trigger ''click''),
      (50, Trigger ''mouseover''), (5000, TooltipEnter)]) (boot click_example []))) = []" by simp
  show ?thesis by (intro conjI 1 2 3)
qed

section \<open>The dialog is constructed once\<close>

lemma retries_tl:
  "retries (coming s) =
     retries (tl (coming s)) +
     (if outcome s = Some ProcessWidgetsFailure \<or> outcome s = Some TooltipDialogFailure
      then 1 else 0)"
  by (cases "coming s") (auto simp: retries_def outcome_def)

lemma potential_show: "potential (invoke ShowTooltip s) \<le> potential s"
proof (cases "tooltip s")
  case None
  note absent = showTooltip_absent[OF None]
  show ?thesis
  proof (cases "outcome s")
    case None
    then show ?thesis
      unfolding potential_def retries_tl[of s]
      by (simp add: invoke_ShowTooltip absent emit_def builds_def construction_def
          \<open>tooltip s = None\<close>)
  next
    case (Some e)
    then show ?thesis
      unfolding potential_def retries_tl[of s]
      by (cases e)
         (simp_all add: invoke_ShowTooltip absent emit_def builds_def construction_def
            \<open>tooltip s = None\<close>)
  qed
next
  case (Some d)
  note present = showTooltip_present[OF Some]
  show ?thesis
    unfolding potential_def retries_tl[of s]
    by (cases "outcome s = Some PopupOpenFailure")
       (simp_all add: invoke_ShowTooltip present emit_def builds_def Some)
qed

lemma potential_invoke: "potential (invoke h s) \<le> potential s"
proof (cases h)
  case ShowTooltip
  then show ?thesis by (simp add: potential_show)
qed (simp_all add: potential_def builds_def onMouseover_def onMouseout_def
      onTooltipMouseover_def onTooltipMouseout_def hideTooltip_eq browser_defs)

lemma potential_fold:
  "potential (fold (\<lambda>l. if fst l = name then invoke (snd l) else id) ls s) \<le> potential s"
proof (induction ls arbitrary: s)
  case Nil
  then show ?case by simp
next
  case (Cons l ls)
  show ?case
  proof (cases "fst l = name")
    case True
    have "potential (fold (\<lambda>l. if fst l = name then invoke (snd l) else id) ls (invoke (snd l) s))
        \<le> potential (invoke (snd l) s)" by (rule Cons.IH)
    also have "\<dots> \<le> potential s" by (rule potential_invoke)
    finally show ?thesis using True by simp
  next
    case False
    then show ?thesis using Cons.IH[of s] by simp
  qed
qed

lemma potential_perform: "potential (perform x s) \<le> potential s"
proof (cases x)
  case (Dom e)
  then show ?thesis
    by (cases e) (auto simp: potential_fold potential_invoke split: option.splits)
next
  case (Call h)
  then show ?thesis by (simp add: potential_invoke)
qed

lemma potential_fire: "potential (fire tm s) \<le> potential s"
proof -
  let ?u = "s\<lparr>timers := filter (\<lambda>x. tid x \<noteq> tid tm) (timers s), now := max (now s) (due tm)\<rparr>"
  have "potential (fire tm s) \<le> potential ?u"
    unfolding fire_eq by (rule potential_invoke)
  also have "potential ?u = potential s" by (simp add: potential_def builds_def)
  finally show ?thesis .
qed

lemma potential_run: "potential (run ops s) \<le> potential s"
proof -
  have "potential (run ops s) \<le> potential s"
  proof (rule run_preserves[where P = "\<lambda>u. potential u \<le> potential s"])
    show "potential s \<le> potential s" by simp
  next
    fix u x assume "potential u \<le> potential s"
    then show "potential (perform x u) \<le> potential s"
      using potential_perform[of x u] by simp
  next
    fix u tm assume "potential u \<le> potential s"
    then show "potential (fire tm u) \<le> potential s"
      using potential_fire[of tm u] by simp
  next
    fix u t assume "potential u \<le> potential s"
    then show "potential (u\<lparr>now := t\<rparr>) \<le> potential s"
      by (simp add: potential_def builds_def)
  qed
  then show ?thesis .
qed

lemma potential_boot: "potential (boot c sc) = Suc (retries sc)"
  by (simp add: potential_def builds_def boot_def init_def postCreate_def on_def emit_def Let_def
      split: option.splits)

lemma run_append: "run (xs @ ys) s = run ys (run xs s)"
  by (induction xs arbitrary: s) simp_all

lemma settled_invoke: "settled d n s \<Longrightarrow> settled d n (invoke h s)"
proof (cases h)
  case ShowTooltip
  assume "settled d n s"
  then have p: "tooltip s = Some d" and b: "builds s = n" by (simp_all add: settled_def)
  show ?thesis
    using b unfolding ShowTooltip
    by (cases "outcome s = Some PopupOpenFailure")
       (simp_all add: settled_def invoke_ShowTooltip showTooltip_present[OF p] emit_def
          builds_def p)
qed (simp_all add: settled_def builds_def onMouseover_def onMouseout_def
      onTooltipMouseover_def onTooltipMouseout_def hideTooltip_eq browser_defs)

lemma settled_perform: "settled d n s \<Longrightarrow> settled d n (perform x s)"
proof (cases x)
  case (Dom e)
  assume a: "settled d n s"
  show ?thesis
  proof (cases e)
    case (Trigger name)
    have "settled d n (fold (\<lambda>l. if fst l = name then invoke (snd l) else id) (listeners s) s)"
      by (rule fold_listeners_preserves[where P = "settled d n", OF a]) (rule settled_invoke)
    then show ?thesis using Dom Trigger by simp
  next
    case TooltipEnter
    then show ?thesis using Dom a settled_invoke[OF a]
      by (simp split: option.splits)
  next
    case TooltipLeave
    then show ?thesis using Dom a settled_invoke[OF a]
      by (simp split: option.splits)
  qed
next
  case (Call h)
  assume "settled d n s"
  then show ?thesis using Call by (simp add: settled_invoke)
qed

lemma settled_run:
  assumes "settled d n s"
  shows "settled d n (run ops s)"
proof (rule run_preserves[where P = "settled d n", OF assms])
  fix u :: state and x
  assume "settled d n u"
  then show "settled d n (perform x u)" by (rule settled_perform)
next
  fix u :: state and tm :: timer
  assume a: "settled d n u"
  let ?u = "u\<lparr>timers := filter (\<lambda>x. tid x \<noteq> tid tm) (timers u), now := max (now u) (due tm)\<rparr>"
  have "settled d n ?u" using a by (simp add: settled_def builds_def)
  then show "settled d n (fire tm u)" unfolding fire_eq by (rule settled_invoke)
next
  fix u :: state and t
  assume "settled d n u"
  then show "settled d n (u\<lparr>now := t\<rparr>)" by (simp add: settled_def builds_def)
qed

text \<open>
  C3, as the code has it. Take any configuration, any outcomes of the collaborators and any timed sequence of
  operations on the widget after \<open>postCreate\<close>: browser events on the widget and on
  the dialog, timers firing in between, and direct calls of any method. The tooltip
  model is processed at most once more than a processing or a construction has thrown;
  so it is processed at most once unless one of them throws (after which, and only after
  which, \<open>showTooltip\<close> constructs again). \<open>_tooltip\<close> is absent at first; once
  it is present it is the same dialog after every further operation, with no further
  processing of the model: it goes from absent to present once. A \<open>showTooltip\<close>
  that finds the dialog present makes one call, \<open>popup.open\<close> of that dialog, and
  a \<open>showTooltip\<close> that returns normally leaves a dialog present.
\<close>

theorem dialog_built_once:
  "builds (run ops (boot c sc)) \<le> Suc (retries sc)
   \<and> (retries sc = 0 \<longrightarrow> builds (run ops (boot c sc)) \<le> 1)
   \<and> tooltip (boot c sc) = None
   \<and> (tooltip (run ops (boot c sc)) = Some d \<longrightarrow>
         tooltip (run (ops @ further) (boot c sc)) = Some d
       \<and> builds (run (ops @ further) (boot c sc)) = builds (run ops (boot c sc)))
   \<and> (tooltip s = Some d \<longrightarrow>
         snd (showTooltip s) =
           s\<lparr>coming := tl (coming s), trace := trace s @ [(now s, PopupOpen d DomNode)]\<rparr>)
   \<and> (fst (showTooltip s) = None \<longrightarrow> tooltip (snd (showTooltip s)) \<noteq> None)"
proof -
  have "builds (run ops (boot c sc)) \<le> potential (run ops (boot c sc))"
    by (simp add: potential_def)
  also have "\<dots> \<le> potential (boot c sc)" by (rule potential_run)
  finally have bound: "builds (run ops (boot c sc)) \<le> Suc (retries sc)"
    by (simp add: potential_boot)
  have fresh: "tooltip (boot c sc) = None"
    by (simp add: boot_def init_def postCreate_def on_def emit_def Let_def split: option.splits)
  have keep: "tooltip (run (ops @ further) (boot c sc)) = Some d
       \<and> builds (run (ops @ further) (boot c sc)) = builds (run ops (boot c sc))"
    if "tooltip (run ops (boot c sc)) = Some d"
  proof -
    have "settled d (builds (run ops (boot c sc))) (run ops (boot c sc))"
      using that by (simp add: settled_def)
    then have "settled d (builds (run ops (boot c sc))) (run further (run ops (boot c sc)))"
      by (rule settled_run)
    then show ?thesis by (simp add: settled_def run_append)
  qed
  have reuse: "snd (showTooltip s) =
      s\<lparr>coming := tl (coming s), trace := trace s @ [(now s, PopupOpen d DomNode)]\<rparr>"
    if "tooltip s = Some d"
    by (simp add: showTooltip_present[OF that])
  have made: "tooltip (snd (showTooltip s)) \<noteq> None" if "fst (showTooltip s) = None"
  proof (cases "tooltip s")
    case None
    then show ?thesis using that
      by (simp add: showTooltip_absent split: if_splits)
  next
    case (Some x)
    then show ?thesis by (simp add: showTooltip_present)
  qed
  show ?thesis
    using bound fresh keep reuse made by simp
qed

lemma hover_then_leave:
  "run [(0, enter), (300, leave)] (boot hover_example []) =
     (boot hover_example [])\<lparr>showTooltipTimeout := 1, hideTooltipTimeout := 2, now := 300,
        timers := [\<lparr>tid = 2, due = 550, callback = HideCb\<rparr>], next_id := 3,
        dialogContent := True, tooltip := Some (the_dialog hover_example),
        trace := trace (boot hover_example []) @ map (Pair 250)
          (construction hover_example @ [PopupOpen (the_dialog hover_example) DomNode])\<rparr>"
proof -
  have h: "triggeringEvent hover_example = ''mouseover''"
    "widgetsForTooltip hover_example = Some [''alfresco/html/Label'']"
    "mouseoverShowDelay hover_example = 250" "mouseoutHideDelay hover_example = 250"
    by (simp_all add: hover_example_def defaults_def)
  show ?thesis
    unfolding boot_hover[OF h(1,2)]
    by (simp add: h init_def browser_defs onMouseover_def onMouseout_def next_due_def
        advance.simps fire_def invoke_ShowTooltip showTooltip_absent outcome_def)
qed

text \<open>
  The theorem at the first documented configuration: a hover that shows the tooltip,
  the pointer leaving, then a second hover and a direct call of \<open>showTooltip\<close>.
\<close>

theorem dialog_built_once_witness:
  "retries [] = 0
   \<and> builds (run ([(0, enter), (300, leave)] @ [(600, enter), (900, Call ShowTooltip)])
        (boot hover_example [])) \<le> 1
   \<and> tooltip (run [(0, enter), (300, leave)] (boot hover_example [])) =
        Some (the_dialog hover_example)
   \<and> tooltip (run ([(0, enter), (300, leave)] @ [(600, enter), (900, Call ShowTooltip)])
        (boot hover_example [])) = Some (the_dialog hover_example)
   \<and> fst (showTooltip (init hover_example [])) = None
   \<and> tooltip (snd (showTooltip (init hover_example []))) \<noteq> None"
proof -
  have r: "retries [] = 0" by (simp add: retries_def)
  have p: "tooltip (run [(0, enter), (300, leave)] (boot hover_example [])) =
      Some (the_dialog hover_example)"
    unfolding hover_then_leave by simp
  have f: "fst (showTooltip (init hover_example [])) = None"
    by (simp add: showTooltip_absent init_def outcome_def)
  note t1 = dialog_built_once[of
      "[(0, enter), (300, leave)] @ [(600, enter), (900, Call ShowTooltip)]" hover_example "[]"]
  note t2 = dialog_built_once[of "[(0, enter), (300, leave)]" hover_example "[]"
      "the_dialog hover_example" "[(600, enter), (900, Call ShowTooltip)]"
      "init hover_example []"]
  from t1 r have 1: "builds (run ([(0, enter), (300, leave)] @
      [(600, enter), (900, Call ShowTooltip)]) (boot hover_example [])) \<le> 1" by blast
  from t2 p have 2: "tooltip (run ([(0, enter), (300, leave)] @
      [(600, enter), (900, Call ShowTooltip)]) (boot hover_example [])) =
      Some (the_dialog hover_example)" by blast
  from t2 f have 3: "tooltip (snd (showTooltip (init hover_example []))) \<noteq> None" by blast
  show ?thesis by (intro conjI r 1 p 2 f 3)
qed

text \<open>
  C3 as stated fails when a collaborator throws: at the first documented configuration
  the pointer comes over the widget at 0 ms, leaves at 300 ms, comes again at 310 ms
  and leaves at 1000 ms, and \<open>processWidgets\<close> throws the first time it is given the
  tooltip model. The show timer of the first enter fires at 250 ms and
  \<open>showTooltip\<close> fails with no dialog recorded; the one of the second enter fires at
  560 ms, and \<open>showTooltip\<close> processes the model a second time and records the
  dialog.
\<close>

theorem failed_build_is_repeated:
  "retries [Some ProcessWidgetsFailure] = 1
   \<and> builds (run [(0, enter), (300, leave), (310, enter), (1000, leave)]
        (boot hover_example [Some ProcessWidgetsFailure])) = 2
   \<and> tooltip (run [(0, enter), (300, leave), (310, enter), (1000, leave)]
        (boot hover_example [Some ProcessWidgetsFailure])) = Some (the_dialog hover_example)"
proof -
  have h: "triggeringEvent hover_example = ''mouseover''"
    "widgetsForTooltip hover_example = Some [''alfresco/html/Label'']"
    "mouseoverShowDelay hover_example = 250" "mouseoutHideDelay hover_example = 250"
    "widgets hover_example = Some [''alfresco/logo/Logo'']"
    by (simp_all add: hover_example_def defaults_def)
  show ?thesis
    unfolding boot_hover[OF h(1,2)]
    by (simp add: h init_def browser_defs onMouseover_def onMouseout_def next_due_def
        advance.simps fire_def invoke_ShowTooltip showTooltip_absent outcome_def
        builds_def retries_def construction_def the_dialog_def)
qed

section \<open>Hovering: the pointer over and off the widget\<close>

lemma dispatch_move:
  assumes "listeners s = hover_listeners"
  shows "dispatch (Trigger ''mouseover'') s = onMouseover s"
    and "dispatch (Trigger ''mouseout'') s = onMouseout s"
  using assms by (simp_all add: hover_listeners_def)

lemma handler_listeners:
  "listeners (onMouseover s) = listeners s" "listeners (onMouseout s) = listeners s"
  by (simp_all add: onMouseover_def onMouseout_def browser_defs)

lemma lone_tracked: "lone k s \<Longrightarrow> tracked s \<and> length (timers s) \<le> 1"
  by (auto simp: lone_def tracked_def list_all_iff)

lemma lone_invoke_callback: "lone k s \<Longrightarrow> lone k (invoke (handler_of cb) s)"
  by (cases cb; cases k) (simp_all add: lone_def invoke_ShowTooltip_frame hideTooltip_eq)

lemma lone_fire: "lone k s \<Longrightarrow> lone k (fire tm s)"
proof -
  assume a: "lone k s"
  let ?u = "s\<lparr>timers := filter (\<lambda>x. tid x \<noteq> tid tm) (timers s), now := max (now s) (due tm)\<rparr>"
  have "length (filter (\<lambda>x. tid x \<noteq> tid tm) (timers s)) \<le> 1"
    using a order_trans[OF length_filter_le[of "\<lambda>x. tid x \<noteq> tid tm" "timers s"]]
    by (simp add: lone_def)
  then have "lone k ?u" using a by (cases k) (auto simp: lone_def list_all_iff)
  then show ?thesis unfolding fire_eq by (rule lone_invoke_callback)
qed

lemma lone_advance: "lone k s \<Longrightarrow> lone k (advance t s)"
proof (rule advance_preserves[where P = "lone k"])
  fix u :: state and t'
  assume "lone k u"
  then show "lone k (u\<lparr>now := t'\<rparr>)" by (cases k) (simp_all add: lone_def)
qed (simp_all add: lone_fire)

lemma lone_move:
  assumes "lone k s" and "k \<noteq> kind m"
  shows "lone (kind m) (dispatch (event_of m) s)"
proof -
  have l: "listeners s = hover_listeners" using assms(1) by (simp add: lone_def)
  show ?thesis
  proof (cases m)
    case Enter
    then have "k = HideCb" using assms(2) by (cases k) simp_all
    then have "filter (\<lambda>x. tid x \<noteq> hideTooltipTimeout s) (timers s) = []"
      using assms(1) by (auto simp: lone_def list_all_iff filter_empty_conv)
    then show ?thesis
      unfolding Enter event_of.simps dispatch_move(1)[OF l]
      using l by (simp add: lone_def onMouseover_def browser_defs)
  next
    case Leave
    then have "k = ShowCb" using assms(2) by (cases k) simp_all
    then have "filter (\<lambda>x. tid x \<noteq> showTooltipTimeout s) (timers s) = []"
      using assms(1) by (auto simp: lone_def list_all_iff filter_empty_conv)
    then show ?thesis
      unfolding Leave event_of.simps dispatch_move(2)[OF l]
      using l by (simp add: lone_def onMouseout_def browser_defs)
  qed
qed

lemma lone_run:
  assumes "alternates (x # ms)" and "lone k s" and "k \<noteq> kind (snd x)"
  shows "lone (kind (snd (last (x # ms)))) (run (moves (x # ms)) s)"
  using assms
proof (induction ms arbitrary: x k s)
  case Nil
  show ?case
    using lone_move[OF lone_advance[OF Nil.prems(2)] Nil.prems(3)] by (simp add: moves_def)
next
  case (Cons y ms)
  let ?s = "dispatch (event_of (snd x)) (advance (fst x) s)"
  have 1: "lone (kind (snd x)) ?s"
    by (rule lone_move[OF lone_advance[OF Cons.prems(2)] Cons.prems(3)])
  have 2: "kind (snd x) \<noteq> kind (snd y)"
    using Cons.prems(1) by (cases "snd x"; cases "snd y") simp_all
  have "lone (kind (snd (last (y # ms)))) (run (moves (y # ms)) ?s)"
    using Cons.prems(1) 1 2 by (intro Cons.IH) simp_all
  then show ?case by (simp add: moves_def)
qed

lemma boot_lone:
  assumes "triggeringEvent c = ''mouseover''" and "widgetsForTooltip c = Some m"
  shows "lone k (boot c sc)"
  unfolding boot_hover[OF assms] by (simp add: lone_def init_def hover_listeners_def)

lemma lone_moves:
  assumes "triggeringEvent c = ''mouseover''" and "widgetsForTooltip c = Some m"
    and "alternates ms"
  shows "\<exists>k. lone k (run (moves ms) (boot c sc))"
proof (cases ms)
  case Nil
  then show ?thesis using boot_lone[OF assms(1,2)] by (auto simp: moves_def)
next
  case (Cons x r)
  obtain k where k: "k \<noteq> kind (snd x)" by (cases "snd x") auto
  have "lone (kind (snd (last (x # r)))) (run (moves (x # r)) (boot c sc))"
    using assms(3) Cons boot_lone[OF assms(1,2)] k by (intro lone_run) simp_all
  then show ?thesis using Cons by blast
qed

text \<open>
  C1, as the code has it. No handler cancels a timer of the kind it sets.
  \<open>onMouseover\<close> cancels the timer whose handle is in \<open>_hideTooltipTimeout\<close> and
  no other, \<open>onMouseout\<close> the one whose handle is in \<open>_showTooltipTimeout\<close> and no
  other, and \<open>onTooltipMouseout\<close> cancels none; each sets its timer after the ones
  that are left and stores the new handle over the old one. What does hold at any time
  is: with hover triggering and a tooltip model, when the moves of the pointer over and
  off the widget alternate (and nothing else calls the handlers), at most one timer is
  alive, during the moves and however far the clock goes on after them, and its handle
  is the one in the slot of its kind.
\<close>

theorem timers_cancelled_and_set:
  "timers (onMouseover s) =
      filter (\<lambda>x. tid x \<noteq> hideTooltipTimeout s) (timers s)
      @ [\<lparr>tid = next_id s, due = now s + mouseoverShowDelay (cfg s), callback = ShowCb\<rparr>]
   \<and> showTooltipTimeout (onMouseover s) = next_id s
   \<and> timers (onMouseout s) =
      filter (\<lambda>x. tid x \<noteq> showTooltipTimeout s) (timers s)
      @ [\<lparr>tid = next_id s, due = now s + mouseoutHideDelay (cfg s), callback = HideCb\<rparr>]
   \<and> hideTooltipTimeout (onMouseout s) = next_id s
   \<and> timers (onTooltipMouseout s) =
      timers s
      @ [\<lparr>tid = next_id s, due = now s + mouseoutHideDelay (cfg s), callback = HideCb\<rparr>]
   \<and> hideTooltipTimeout (onTooltipMouseout s) = next_id s
   \<and> (triggeringEvent c = ''mouseover'' \<and> widgetsForTooltip c = Some m \<and> alternates ms \<longrightarrow>
         length (timers (run (moves ms) (boot c sc))) \<le> 1
       \<and> tracked (run (moves ms) (boot c sc))
       \<and> length (timers (advance t (run (moves ms) (boot c sc)))) \<le> 1
       \<and> tracked (advance t (run (moves ms) (boot c sc))))"
proof -
  have alt: "length (timers (run (moves ms) (boot c sc))) \<le> 1
       \<and> tracked (run (moves ms) (boot c sc))
       \<and> length (timers (advance t (run (moves ms) (boot c sc)))) \<le> 1
       \<and> tracked (advance t (run (moves ms) (boot c sc)))"
    if hyp: "triggeringEvent c = ''mouseover''" "widgetsForTooltip c = Some m" "alternates ms"
  proof -
    obtain k where k: "lone k (run (moves ms) (boot c sc))"
      using lone_moves[OF hyp] by blast
    show ?thesis
      using lone_tracked[OF k] lone_tracked[OF lone_advance[OF k, of t]] by simp
  qed
  show ?thesis
    using alt by (simp add: onMouseover_def onMouseout_def onTooltipMouseout_def browser_defs)
qed

text \<open>
  The theorem at the first documented configuration, for the pointer going over, off
  and over the widget again.
\<close>

theorem timers_cancelled_and_set_witness:
  "alternates [(0, Enter), (100, Leave), (150, Enter)]
   \<and> length (timers (run (moves [(0, Enter), (100, Leave), (150, Enter)])
        (boot hover_example []))) \<le> 1
   \<and> tracked (advance 400 (run (moves [(0, Enter), (100, Leave), (150, Enter)])
        (boot hover_example [])))"
proof -
  have a: "alternates [(0, Enter), (100, Leave), (150, Enter)]" by simp
  have h: "triggeringEvent hover_example = ''mouseover''"
    "widgetsForTooltip hover_example = Some [''alfresco/html/Label'']"
    by (simp_all add: hover_example_def defaults_def)
  note t = timers_cancelled_and_set[of "init hover_example []" hover_example
      "[''alfresco/html/Label'']" "[(0, Enter), (100, Leave), (150, Enter)]" "[]" 400]
  from t a h have 1: "length (timers (run (moves [(0, Enter), (100, Leave), (150, Enter)])
        (boot hover_example []))) \<le> 1" by blast
  from t a h have 2: "tracked (advance 400 (run (moves [(0, Enter), (100, Leave), (150, Enter)])
        (boot hover_example [])))" by blast
  show ?thesis by (intro conjI a 1 2)
qed

text \<open>
  C1 as stated fails when the pointer comes over the widget twice with no leave in
  between (over at 0 ms and at 10 ms, default delays): the second \<open>onMouseover\<close>
  leaves the first show timer alive, two show timers are outstanding, and both fire,
  at 250 ms and at 260 ms.
\<close>

theorem two_show_timers:
  "timers (run (moves [(0, Enter), (10, Enter)]) (boot hover_example [])) =
      [\<lparr>tid = 1, due = 250, callback = ShowCb\<rparr>, \<lparr>tid = 2, due = 260, callback = ShowCb\<rparr>]
   \<and> map fst (filter (\<lambda>x. snd x = PopupOpen (the_dialog hover_example) DomNode)
        (trace (advance 1000 (run (moves [(0, Enter), (10, Enter)]) (boot hover_example [])))))
      = [250, 260]"
proof -
  have h: "triggeringEvent hover_example = ''mouseover''"
    "widgetsForTooltip hover_example = Some [''alfresco/html/Label'']"
    "mouseoverShowDelay hover_example = 250" "widgets hover_example = Some [''alfresco/logo/Logo'']"
    by (simp_all add: hover_example_def defaults_def)
  have r: "run (moves [(0, Enter), (10, Enter)]) (boot hover_example []) =
     (boot hover_example [])\<lparr>showTooltipTimeout := 2, now := 10,
        timers := [\<lparr>tid = 1, due = 250, callback = ShowCb\<rparr>,
                   \<lparr>tid = 2, due = 260, callback = ShowCb\<rparr>], next_id := 3\<rparr>"
    unfolding boot_hover[OF h(1,2)]
    by (simp add: moves_def h init_def browser_defs onMouseover_def next_due_def advance_none)
  show ?thesis
    unfolding r unfolding boot_hover[OF h(1,2)]
    by (simp add: h init_def next_due_def advance.simps fire_def invoke_ShowTooltip
        showTooltip_absent showTooltip_present outcome_def construction_def the_dialog_def)
qed

section \<open>Passing over the widget quickly\<close>

lemma showTooltip_calls: "show_calls (snd (showTooltip s)) \<noteq> []"
proof (cases "tooltip s")
  case None
  show ?thesis
    by (cases "outcome s = Some ProcessWidgetsFailure"; cases "outcome s = Some TooltipDialogFailure")
       (simp_all add: showTooltip_absent[OF None] show_calls_def construction_def)
next
  case (Some d)
  show ?thesis by (simp add: showTooltip_present[OF Some] show_calls_def)
qed

lemma next_due_due: "next_due t ts = Some tm \<Longrightarrow> due tm \<le> t"
  using next_due_mem[of t "filter (\<lambda>x. due x \<le> t) ts" tm]
  by (auto simp: next_due_def split: list.splits)

lemma advance_preserves_due:
  assumes "P s"
    and "\<And>u tm. P u \<Longrightarrow> tm \<in> set (timers u) \<Longrightarrow> due tm \<le> t \<Longrightarrow> P (fire tm u)"
    and "\<And>u. P u \<Longrightarrow> P (u\<lparr>now := max (now u) t\<rparr>)"
  shows "P (advance t s)"
  using assms
proof (induction t s rule: advance.induct)
  case (1 t s)
  show ?case
  proof (cases "next_due t (timers s)")
    case None
    have "P (s\<lparr>now := max (now s) t\<rparr>)" using "1.prems"(1) by (rule "1.prems"(3))
    then show ?thesis using None by (simp add: advance_none)
  next
    case (Some tm)
    have "P (fire tm s)"
      using "1.prems"(1) next_due_mem[OF Some] next_due_due[OF Some] by (rule "1.prems"(2))
    then have "P (advance t (fire tm s))"
      using Some "1.prems"(2,3) by (intro "1.IH") auto
    then show ?thesis using Some by (simp add: advance_some)
  qed
qed

lemma advance_now: "t \<le> now (advance t s)"
proof (induction t s rule: advance.induct)
  case (1 t s)
  show ?case
  proof (cases "next_due t (timers s)")
    case None
    then show ?thesis by (simp add: advance_none)
  next
    case (Some tm)
    then show ?thesis using "1.IH" by (simp add: advance_some)
  qed
qed

lemma unarmed_advance: "unarmed c s \<Longrightarrow> unarmed c (advance t s)"
proof (rule advance_preserves[where P = "unarmed c"])
  fix u :: state and tm :: timer
  assume a: "unarmed c u" and m: "tm \<in> set (timers u)"
  then have h: "callback tm = HideCb" by (auto simp: unarmed_def list_all_iff)
  show "unarmed c (fire tm u)"
    using a unfolding fire_eq h
    by (auto simp: unarmed_def hideTooltip_eq show_calls_def list_all_iff)
next
  fix u :: state and t'
  assume "unarmed c u"
  then show "unarmed c (u\<lparr>now := t'\<rparr>)" by (simp add: unarmed_def show_calls_def)
qed simp

lemma guarded_advance:
  assumes "guarded c d s" and "t < d"
  shows "guarded c d (advance t s)"
proof (rule advance_preserves_due[where P = "guarded c d", OF assms(1)])
  fix u :: state and tm :: timer
  assume a: "guarded c d u" and m: "tm \<in> set (timers u)" and d: "due tm \<le> t"
  have h: "callback tm = HideCb"
  proof (cases "callback tm")
    case ShowCb
    then have "d \<le> due tm" using a m by (auto simp: guarded_def list_all_iff)
    then show ?thesis using d assms(2) by simp
  qed simp
  show "guarded c d (fire tm u)"
    using a unfolding fire_eq h
    by (auto simp: guarded_def hideTooltip_eq show_calls_def list_all_iff)
next
  fix u :: state
  assume "guarded c d u"
  then show "guarded c d (u\<lparr>now := max (now u) t\<rparr>)" by (simp add: guarded_def show_calls_def)
qed

lemma unarmed_enter:
  assumes "unarmed c s" and "t \<le> now s"
  shows "guarded c (t + mouseoverShowDelay c) (dispatch (Trigger ''mouseover'') s)"
proof -
  have l: "listeners s = hover_listeners" using assms(1) by (simp add: unarmed_def)
  show ?thesis
    unfolding dispatch_move(1)[OF l] using assms
    by (auto simp: unarmed_def guarded_def onMouseover_def browser_defs show_calls_def
        list_all_iff)
qed

lemma unarmed_leave:
  assumes "unarmed c s"
  shows "unarmed c (dispatch (Trigger ''mouseout'') s)"
proof -
  have l: "listeners s = hover_listeners" using assms(1) by (simp add: unarmed_def)
  show ?thesis
    unfolding dispatch_move(2)[OF l] using assms
    by (auto simp: unarmed_def onMouseout_def browser_defs show_calls_def list_all_iff)
qed

lemma guarded_leave:
  assumes "guarded c d s"
  shows "unarmed c (dispatch (Trigger ''mouseout'') s)"
proof -
  have l: "listeners s = hover_listeners" using assms(1) by (simp add: guarded_def)
  have "callback x = HideCb" if "x \<in> set (timers s)" "tid x \<noteq> showTooltipTimeout s" for x
    using assms that by (cases "callback x") (auto simp: guarded_def list_all_iff)
  then show ?thesis
    unfolding dispatch_move(2)[OF l] using assms
    by (auto simp: unarmed_def guarded_def onMouseout_def browser_defs show_calls_def
        list_all_iff)
qed

lemma after_first:
  assumes "unarmed c s"
  shows "after_move c x (dispatch (event_of (snd x)) (advance (fst x) s))"
proof -
  note u = unarmed_advance[OF assms, of "fst x"]
  show ?thesis
  proof (cases x)
    case (Pair t m)
    then show ?thesis
      using u unarmed_enter[OF u advance_now] unarmed_leave[OF u] by (cases m) simp_all
  qed
qed

lemma after_step:
  assumes "after_move c x s"
    and "snd x = Enter \<longrightarrow> snd y = Leave \<and> fst y < fst x + mouseoverShowDelay c"
  shows "after_move c y (dispatch (event_of (snd y)) (advance (fst y) s))"
proof (cases "snd x")
  case Enter
  then have g: "guarded c (fst x + mouseoverShowDelay c) s"
    using assms(1) by (cases x) simp
  have y: "snd y = Leave" and t: "fst y < fst x + mouseoverShowDelay c"
    using assms(2) Enter by simp_all
  have "unarmed c (dispatch (Trigger ''mouseout'') (advance (fst y) s))"
    by (rule guarded_leave[OF guarded_advance[OF g t]])
  then show ?thesis using y by (cases y) simp
next
  case Leave
  then have "unarmed c s" using assms(1) by (cases x) simp
  then show ?thesis by (rule after_first)
qed

lemma after_run:
  assumes "enters_apart (x # ms)" and "rapid c (x # ms)" and "after_move c x s"
  shows "after_move c (last (x # ms)) (run (moves ms) s)"
  using assms
proof (induction ms arbitrary: x s)
  case Nil
  then show ?case by (simp add: moves_def)
next
  case (Cons y ms)
  have "after_move c y (dispatch (event_of (snd y)) (advance (fst y) s))"
    using Cons.prems by (intro after_step[of c x]) (cases "snd x"; simp)+
  then have "after_move c (last (y # ms))
      (run (moves ms) (dispatch (event_of (snd y)) (advance (fst y) s)))"
    using Cons.prems by (intro Cons.IH) simp_all
  then show ?case by (simp add: moves_def)
qed

lemma moves_events: "moves ms = events (map (\<lambda>x. (fst x, event_of (snd x))) ms)"
  by (simp add: moves_def events_def)

lemma boot_calls: "show_calls (boot c sc) = [] \<and> tooltip (boot c sc) = None \<and> timers (boot c sc) = []"
  by (simp add: show_calls_def boot_def init_def postCreate_def on_def emit_def Let_def
      split: option.splits)

lemma boot_unarmed:
  assumes "triggeringEvent c = ''mouseover''" and "widgetsForTooltip c = Some m"
  shows "unarmed c (boot c sc)"
  unfolding boot_hover[OF assms]
  by (simp add: unarmed_def init_def hover_listeners_def show_calls_def split: option.splits)

lemma after_moves:
  assumes "triggeringEvent c = ''mouseover''" and "widgetsForTooltip c = Some m"
    and "enters_apart ms" and "rapid c ms" and "ms \<noteq> []"
  shows "after_move c (last ms) (run (moves ms) (boot c sc))"
proof -
  obtain x r where ms: "ms = x # r" using assms(5) by (cases ms) auto
  have "after_move c x (dispatch (event_of (snd x)) (advance (fst x) (boot c sc)))"
    by (rule after_first[OF boot_unarmed[OF assms(1,2)]])
  then have "after_move c (last (x # r))
      (run (moves r) (dispatch (event_of (snd x)) (advance (fst x) (boot c sc))))"
    using assms(3,4) ms by (intro after_run) simp_all
  then show ?thesis using ms by (simp add: moves_def)
qed

lemma after_wait:
  assumes "after_move c x s"
  shows "snd x = Leave \<Longrightarrow> show_calls (advance t s) = [] \<and> tooltip (advance t s) = None"
    and "snd x = Enter \<Longrightarrow> t < fst x + mouseoverShowDelay c \<Longrightarrow>
           show_calls (advance t s) = [] \<and> tooltip (advance t s) = None"
    and "show_calls s = [] \<and> tooltip s = None"
proof -
  show "show_calls (advance t s) = [] \<and> tooltip (advance t s) = None" if "snd x = Leave"
  proof -
    have "unarmed c s" using assms that by (cases x) simp
    then have "unarmed c (advance t s)" by (rule unarmed_advance)
    then show ?thesis by (simp add: unarmed_def)
  qed
  show "show_calls (advance t s) = [] \<and> tooltip (advance t s) = None"
    if "snd x = Enter" "t < fst x + mouseoverShowDelay c"
  proof -
    have "guarded c (fst x + mouseoverShowDelay c) s" using assms that(1) by (cases x) simp
    then have "guarded c (fst x + mouseoverShowDelay c) (advance t s)"
      using that(2) by (rule guarded_advance)
    then show ?thesis by (simp add: guarded_def)
  qed
  show "show_calls s = [] \<and> tooltip s = None"
    using assms by (cases x; cases "snd x") (simp_all add: guarded_def unarmed_def)
qed

text \<open>
  C2, as the code has it. With hover triggering and both delays below \<open>2 ^ 31\<close>
  milliseconds, let the pointer move onto and off the widget, each move in time order
  and less than \<open>mouseoverShowDelay\<close> after an enter, less than
  \<open>mouseoutHideDelay\<close> after a leave, and let no enter directly follow an enter
  (leaves may repeat). Then, whatever the collaborators would do, \<open>showTooltip\<close>
  does not run while the moves are executed: the trace after them has none of the calls
  of \<open>showTooltip\<close> (which makes at least one whenever it runs), and no dialog is
  recorded. If the last move is a leave this stays so however far the clock moves on;
  if it is an enter, it stays so at every time before \<open>mouseoverShowDelay\<close> after
  it.
\<close>

theorem quick_passage_not_shown:
  assumes "triggeringEvent c = ''mouseover''"
    and "mouseoverShowDelay c < 2 ^ 31" and "mouseoutHideDelay c < 2 ^ 31"
    and "enters_apart ms" and "rapid c ms"
  shows "show_calls (run (moves ms) (boot c sc)) = []
    \<and> tooltip (run (moves ms) (boot c sc)) = None
    \<and> (ms \<noteq> [] \<and> snd (last ms) = Leave \<longrightarrow>
          show_calls (advance t (run (moves ms) (boot c sc))) = []
        \<and> tooltip (advance t (run (moves ms) (boot c sc))) = None)
    \<and> (ms \<noteq> [] \<and> snd (last ms) = Enter \<and> t < fst (last ms) + mouseoverShowDelay c \<longrightarrow>
          show_calls (advance t (run (moves ms) (boot c sc))) = []
        \<and> tooltip (advance t (run (moves ms) (boot c sc))) = None)
    \<and> show_calls (snd (showTooltip u)) \<noteq> []"
proof (cases "widgetsForTooltip c")
  case None
  let ?es = "map (\<lambda>x. (fst x, event_of (snd x))) ms"
  have "run (events ?es) (boot c sc) =
      (boot c sc)\<lparr>now := foldl max (now (boot c sc)) (map fst ?es)\<rparr>"
    by (rule deaf_widget) (simp_all add: boot_no_model[OF None] init_def)
  then have r: "run (moves ms) (boot c sc) = (boot c sc)\<lparr>now := foldl max 0 (map fst ?es)\<rparr>"
    unfolding moves_events by (simp add: boot_no_model[OF None] init_def)
  have a: "advance t (run (moves ms) (boot c sc)) =
      (boot c sc)\<lparr>now := max (foldl max 0 (map fst ?es)) t\<rparr>"
    unfolding r using boot_calls[of c sc] by (simp add: advance_none next_due_def)
  show ?thesis
    unfolding a unfolding r
    using boot_calls[of c sc] showTooltip_calls[of u] by (simp add: show_calls_def)
next
  case (Some m)
  show ?thesis
  proof (cases "ms = []")
    case True
    then show ?thesis
      using boot_calls[of c sc] showTooltip_calls[of u] by (simp add: moves_def)
  next
    case False
    note p = after_moves[OF assms(1) Some assms(4,5) False, of sc]
    show ?thesis
      using after_wait(1,2)[OF p, of t] after_wait(3)[OF p] showTooltip_calls[of u] by simp
  qed
qed

text \<open>
  The theorem at the first documented configuration: the pointer crosses the widget
  twice within 300 ms, and its leaving is reported twice the first time.
\<close>

theorem quick_passage_not_shown_witness:
  "mouseoverShowDelay hover_example < 2 ^ 31 \<and> mouseoutHideDelay hover_example < 2 ^ 31
   \<and> enters_apart [(0, Enter), (100, Leave), (150, Leave), (200, Enter), (300, Leave)]
   \<and> rapid hover_example [(0, Enter), (100, Leave), (150, Leave), (200, Enter), (300, Leave)]
   \<and> show_calls (run (moves [(0, Enter), (100, Leave), (150, Leave), (200, Enter), (300, Leave)])
        (boot hover_example [])) = []
   \<and> show_calls (advance 5000
        (run (moves [(0, Enter), (100, Leave), (150, Leave), (200, Enter), (300, Leave)])
        (boot hover_example []))) = []"
proof -
  have a: "enters_apart [(0, Enter), (100, Leave), (150, Leave), (200, Enter), (300, Leave)]"
    by simp
  have r: "rapid hover_example [(0, Enter), (100, Leave), (150, Leave), (200, Enter), (300, Leave)]"
    by (simp add: hover_example_def defaults_def)
  have h: "triggeringEvent hover_example = ''mouseover''"
    by (simp add: hover_example_def defaults_def)
  have d: "mouseoverShowDelay hover_example < 2 ^ 31" "mouseoutHideDelay hover_example < 2 ^ 31"
    by (simp_all add: hover_example_def defaults_def)
  note t = quick_passage_not_shown[OF h d a r, of "[]" 5000]
  from t have 1: "show_calls (run (moves [(0, Enter), (100, Leave), (150, Leave), (200, Enter),
        (300, Leave)]) (boot hover_example [])) = []" by blast
  from t have 2: "show_calls (advance 5000 (run (moves [(0, Enter), (100, Leave), (150, Leave),
        (200, Enter), (300, Leave)]) (boot hover_example []))) = []" by simp
  show ?thesis by (intro conjI d a r 1 2)
qed

text \<open>
  C2 as stated fails when enters repeat: the pointer comes over the widget at 0, 100,
  200 and 300 ms with no leave in between, every move less than the 250 ms
  of the show delay after the one before. No enter cancels the show timer of an earlier
  one, so the timer of the first fires at 250 ms, inside the sequence, and the tooltip
  is open when the last move has been executed.
\<close>

theorem repeated_enter_shows:
  "rapid hover_example [(0, Enter), (100, Enter), (200, Enter), (300, Enter)]
   \<and> tooltip (run (moves [(0, Enter), (100, Enter), (200, Enter), (300, Enter)])
        (boot hover_example [])) = Some (the_dialog hover_example)
   \<and> show_calls (run (moves [(0, Enter), (100, Enter), (200, Enter), (300, Enter)])
        (boot hover_example [])) =
       map (Pair 250) (construction hover_example @ [PopupOpen (the_dialog hover_example) DomNode])"
proof -
  have h: "triggeringEvent hover_example = ''mouseover''"
    "widgetsForTooltip hover_example = Some [''alfresco/html/Label'']"
    "mouseoverShowDelay hover_example = 250" "widgets hover_example = Some [''alfresco/logo/Logo'']"
    by (simp_all add: hover_example_def defaults_def)
  have r: "run (moves [(0, Enter), (100, Enter), (200, Enter)]) (boot hover_example []) =
     (boot hover_example [])\<lparr>showTooltipTimeout := 3, now := 200,
        timers := [\<lparr>tid = 1, due = 250, callback = ShowCb\<rparr>,
                   \<lparr>tid = 2, due = 350, callback = ShowCb\<rparr>,
                   \<lparr>tid = 3, due = 450, callback = ShowCb\<rparr>], next_id := 4\<rparr>"
    unfolding boot_hover[OF h(1,2)]
    by (simp add: moves_def h init_def browser_defs onMouseover_def next_due_def advance_none)
  have split: "run (moves [(0, Enter), (100, Enter), (200, Enter), (300, Enter)]) (boot hover_example [])
     = run (moves [(300, Enter)]) (run (moves [(0, Enter), (100, Enter), (200, Enter)]) (boot hover_example []))"
    by (simp add: moves_def)
  show ?thesis
    unfolding split r unfolding boot_hover[OF h(1,2)]
    by (simp add: moves_def h init_def next_due_def advance.simps fire_def invoke_ShowTooltip
        showTooltip_absent outcome_def construction_def the_dialog_def show_calls_def
        onMouseover_def browser_defs)
qed

section \<open>Teardown\<close>

lemma detach_timers: "timers (detach s) = []"
proof -
  have "callback x = ShowCb \<or> callback x = HideCb" for x :: timer
    by (cases "callback x") simp_all
  then show ?thesis
    by (auto simp: detach_def emit_def Let_def filter_empty_conv
        split: option.splits)
qed

text \<open>
  C6, for the \<open>detach\<close> of the specification on the states of the code. \<open>detach\<close>
  is defined in every state, and a second call changes nothing. A call leaves no timer
  outstanding, closes the dialog with one \<open>popup.close\<close> and forgets it when one is
  recorded, and calls nothing when none is. Moving the clock on after \<open>detach\<close>
  changes the clock only: nothing fires, and the trace stays as \<open>detach\<close> left it.
\<close>

theorem detach_leaves_nothing:
  "detach (detach s) = detach s
   \<and> timers (detach s) = []
   \<and> tooltip (detach s) = None
   \<and> trace (detach s) =
        trace s @ (case tooltip s of None \<Rightarrow> [] | Some d \<Rightarrow> [(now s, PopupClose (Some d))])
   \<and> advance t (detach s) = (detach s)\<lparr>now := max (now s) t\<rparr>
   \<and> trace (advance t (detach s)) = trace (detach s)"
proof -
  have idem: "detach (detach s) = detach s"
    by (cases "tooltip s")
       (simp_all add: detach_def emit_def Let_def cong: conj_cong)
  have rest: "tooltip (detach s) = None"
    "trace (detach s) =
        trace s @ (case tooltip s of None \<Rightarrow> [] | Some d \<Rightarrow> [(now s, PopupClose (Some d))])"
    "now (detach s) = now s"
    by (simp_all add: detach_def emit_def Let_def split: option.splits)
  have still: "advance t (detach s) = (detach s)\<lparr>now := max (now s) t\<rparr>"
    using detach_timers[of s] rest(3) by (simp add: advance_none next_due_def)
  have same: "trace (advance t (detach s)) = trace (detach s)"
    unfolding still by simp
  show ?thesis using idem detach_timers[of s] rest(1,2) still same by simp
qed

text \<open>
  The theorem in two states of the first documented configuration: with the tooltip
  open and a hide timer pending (the pointer came over at 0 ms and left at 300 ms), and
  with two show timers pending, of which the widget holds the handle of the second (the
  pointer came over at 0 and at 10 ms).
\<close>

theorem detach_leaves_nothing_witness:
  "timers (run [(0, enter), (300, leave)] (boot hover_example [])) =
        [\<lparr>tid = 2, due = 550, callback = HideCb\<rparr>]
   \<and> timers (detach (run [(0, enter), (300, leave)] (boot hover_example []))) = []
   \<and> trace (advance 5000 (detach (run [(0, enter), (300, leave)] (boot hover_example [])))) =
        trace (run [(0, enter), (300, leave)] (boot hover_example []))
        @ [(300, PopupClose (Some (the_dialog hover_example)))]
   \<and> timers (run [(0, enter), (10, enter)] (boot hover_example [])) =
        [\<lparr>tid = 1, due = 250, callback = ShowCb\<rparr>, \<lparr>tid = 2, due = 260, callback = ShowCb\<rparr>]
   \<and> timers (detach (run [(0, enter), (10, enter)] (boot hover_example []))) = []
   \<and> trace (advance 5000 (detach (run [(0, enter), (10, enter)] (boot hover_example [])))) =
        trace (boot hover_example [])"
proof -
  let ?s = "run [(0, enter), (300, leave)] (boot hover_example [])"
  let ?u = "run [(0, enter), (10, enter)] (boot hover_example [])"
  have h: "triggeringEvent hover_example = ''mouseover''"
    "widgetsForTooltip hover_example = Some [''alfresco/html/Label'']"
    "mouseoverShowDelay hover_example = 250" "widgets hover_example = Some [''alfresco/logo/Logo'']"
    by (simp_all add: hover_example_def defaults_def)
  have u: "?u =
     (boot hover_example [])\<lparr>showTooltipTimeout := 2, now := 10,
        timers := [\<lparr>tid = 1, due = 250, callback = ShowCb\<rparr>,
                   \<lparr>tid = 2, due = 260, callback = ShowCb\<rparr>], next_id := 3\<rparr>"
    unfolding boot_hover[OF h(1,2)]
    by (simp add: h init_def browser_defs onMouseover_def next_due_def advance_none)
  have tm: "timers ?s = [\<lparr>tid = 2, due = 550, callback = HideCb\<rparr>]"
    unfolding hover_then_leave by simp
  have tt: "tooltip ?s = Some (the_dialog hover_example)" and n: "now ?s = 300"
    unfolding hover_then_leave by simp_all
  have um: "timers ?u =
      [\<lparr>tid = 1, due = 250, callback = ShowCb\<rparr>, \<lparr>tid = 2, due = 260, callback = ShowCb\<rparr>]"
    and ut: "tooltip ?u = None" and ur: "trace ?u = trace (boot hover_example [])"
    unfolding u by (simp_all add: boot_hover[OF h(1,2)] init_def)
  note t = detach_leaves_nothing[of ?s 5000]
  note v = detach_leaves_nothing[of ?u 5000]
  from t have 1: "timers (detach ?s) = []" by blast
  from t have a: "trace (advance 5000 (detach ?s)) = trace (detach ?s)" by blast
  from t have d: "trace (detach ?s) =
      trace ?s @ (case tooltip ?s of None \<Rightarrow> [] | Some d \<Rightarrow> [(now ?s, PopupClose (Some d))])"
    by blast
  have 2: "trace (advance 5000 (detach ?s)) =
      trace ?s @ [(300, PopupClose (Some (the_dialog hover_example)))]"
    unfolding a using d tt n by simp
  from v have 3: "timers (detach ?u) = []" by blast
  from v have b: "trace (advance 5000 (detach ?u)) = trace (detach ?u)" by blast
  from v have e: "trace (detach ?u) =
      trace ?u @ (case tooltip ?u of None \<Rightarrow> [] | Some d \<Rightarrow> [(now ?u, PopupClose (Some d))])"
    by blast
  have 4: "trace (advance 5000 (detach ?u)) = trace (boot hover_example [])"
    unfolding b using e ut ur by simp
  show ?thesis by (intro conjI tm 1 2 um 3 4)
qed

end
